theory Spec2Isabelle
  imports Main "HOL-Library.Multiset"
begin

section \<open>Strings as Go sees them\<close>

text \<open>
  A Go string is a byte sequence; it is modelled as a \<open>string\<close> (a list of 8-bit
  characters), and a character outside ASCII is the bytes of its UTF-8 encoding.
\<close>

definition ascii :: "string \<Rightarrow> bool" where
  "ascii s = list_all (\<lambda>c. (of_char c :: nat) < 128) s"

fun stripPrefix :: "string \<Rightarrow> string \<Rightarrow> string option" where
  "stripPrefix [] s = Some s"
| "stripPrefix (p # ps) [] = None"
| "stripPrefix (p # ps) (c # cs) = (if p = c then stripPrefix ps cs else None)"

text \<open>
  \<open>strings.TrimSpace\<close> removes from both ends of a string the characters for which
  \<open>unicode.IsSpace\<close> holds: tab, line feed, vertical tab, form feed, carriage return,
  space, U+0085, U+00A0, U+1680, U+2000 to U+200A, U+2028, U+2029, U+202F, U+205F and
  U+3000. \<open>spaceRunes\<close> lists their UTF-8 encodings. A string starts (ends) with a
  white-space character exactly when it starts (ends) with one of these byte sequences,
  since Go decodes a byte that belongs to no valid encoding as a character that is not
  white space. The left end is trimmed first, then the right end.
\<close>

definition spaceRunes :: "string list" where
  "spaceRunes =
     [[CHR 0x09], [CHR 0x0A], [CHR 0x0B], [CHR 0x0C], [CHR 0x0D], [CHR 0x20],
      [CHR 0xC2, CHR 0x85], [CHR 0xC2, CHR 0xA0], [CHR 0xE1, CHR 0x9A, CHR 0x80],
      [CHR 0xE2, CHR 0x80, CHR 0x80], [CHR 0xE2, CHR 0x80, CHR 0x81],
      [CHR 0xE2, CHR 0x80, CHR 0x82], [CHR 0xE2, CHR 0x80, CHR 0x83],
      [CHR 0xE2, CHR 0x80, CHR 0x84], [CHR 0xE2, CHR 0x80, CHR 0x85],
      [CHR 0xE2, CHR 0x80, CHR 0x86], [CHR 0xE2, CHR 0x80, CHR 0x87],
      [CHR 0xE2, CHR 0x80, CHR 0x88], [CHR 0xE2, CHR 0x80, CHR 0x89],
      [CHR 0xE2, CHR 0x80, CHR 0x8A], [CHR 0xE2, CHR 0x80, CHR 0xA8],
      [CHR 0xE2, CHR 0x80, CHR 0xA9], [CHR 0xE2, CHR 0x80, CHR 0xAF],
      [CHR 0xE2, CHR 0x81, CHR 0x9F], [CHR 0xE3, CHR 0x80, CHR 0x80]]"

text \<open>
  \<open>stripOne\<close> gives the string without the first of the given sequences that it starts
  with, if there is one; \<open>trimLeft\<close> removes such sequences from the left end until
  none is left (an empty sequence, which removes nothing, is not tried).
\<close>

fun stripOne :: "string list \<Rightarrow> string \<Rightarrow> string option" where
  "stripOne [] s = None"
| "stripOne (p # ps) s =
     (case stripPrefix p s of Some r \<Rightarrow> Some r | None \<Rightarrow> stripOne ps s)"

function trimLeft :: "string list \<Rightarrow> string \<Rightarrow> string" where
  "trimLeft seqs s =
     (case stripOne (filter (\<lambda>p. p \<noteq> []) seqs) s of
        None \<Rightarrow> s
      | Some r \<Rightarrow> trimLeft seqs r)"
  by pat_completeness auto

definition TrimSpace :: "string \<Rightarrow> string" where
  "TrimSpace s = rev (trimLeft (map rev spaceRunes) (rev (trimLeft spaceRunes s)))"

text \<open>
  \<open>strings.ToLower\<close> turns the letters \<open>A\<close> to \<open>Z\<close> of an ASCII string into \<open>a\<close> to
  \<open>z\<close>. A string with a byte above 127 goes through \<open>strings.Map(unicode.ToLower, s)\<close>,
  which needs the case tables of package \<open>unicode\<close>; they are not part of the
  repository, and this mapping of non-ASCII strings is a parameter \<open>mapLower\<close> of the
  type mapper. Nothing is assumed about it.
\<close>

definition toLowerByte :: "char \<Rightarrow> char" where
  "toLowerByte c = (let n = (of_char c :: nat) in
     if 65 \<le> n \<and> n \<le> 90 then char_of (n + 32) else c)"

definition ToLower :: "(string \<Rightarrow> string) \<Rightarrow> string \<Rightarrow> string" where
  "ToLower mapLower s = (if ascii s then map toLowerByte s else mapLower s)"

section \<open>The three collection patterns\<close>

text \<open>
  \<open>cqlToGoType\<close> compiles three regular expressions,
  \<^verbatim>\<open>^map<(.+),(.+)>$\<close>, \<^verbatim>\<open>^list<(.+)>$\<close> and \<^verbatim>\<open>^set<(.+)>$\<close>, and reads the
  submatches. Go's \<open>regexp\<close> gives the match a backtracking engine finds first: a
  greedy \<open>.+\<close> takes as many characters as the rest of the pattern allows, and \<open>.\<close>
  matches every character except line feed; the comma, the angle brackets and the line
  feed are ASCII bytes, which never occur inside the encoding of another character, so
  the match can be read byte by byte. Hence a string matches the list pattern
  when it is \<open>list<\<close>, a non-empty body without line feed, and \<open>>\<close>; and it matches the
  map pattern when its body splits at a comma into two non-empty parts, the first
  group ending at the last comma that leaves the second group non-empty.
\<close>

text \<open>The body between a fixed opening and the closing \<open>>\<close>, matched by \<open>(.+)\<close>.\<close>

definition wrapped :: "string \<Rightarrow> string \<Rightarrow> string option" where
  "wrapped opening s =
     (case stripPrefix opening s of
        None \<Rightarrow> None
      | Some r \<Rightarrow>
          if r = [] then None
          else if last r \<noteq> CHR ''>'' then None
          else if butlast r = [] then None
          else if CHR 0x0A \<in> set (butlast r) then None
          else Some (butlast r))"

text \<open>Splitting a string at its last comma.\<close>

fun lastComma :: "string \<Rightarrow> (string \<times> string) option" where
  "lastComma [] = None"
| "lastComma (c # cs) =
     (case lastComma cs of
        Some (a, b) \<Rightarrow> Some (c # a, b)
      | None \<Rightarrow> if c = CHR '','' then Some ([], cs) else None)"

text \<open>
  The two groups of the map pattern: the first character of the body belongs to the
  first group and the last one to the second group (both groups are non-empty), and the
  separating comma is the last comma in between.
\<close>

definition splitBody :: "string \<Rightarrow> (string \<times> string) option" where
  "splitBody body =
     (case body of
        [] \<Rightarrow> None
      | c0 # rest \<Rightarrow>
          if rest = [] then None
          else (case lastComma (butlast rest) of
                  None \<Rightarrow> None
                | Some (a, b) \<Rightarrow> Some (c0 # a, b @ [last rest])))"

definition mapPattern :: "string \<Rightarrow> (string \<times> string) option" where
  "mapPattern s = (case wrapped ''map<'' s of None \<Rightarrow> None | Some body \<Rightarrow> splitBody body)"

definition listPattern :: "string \<Rightarrow> string option" where
  "listPattern s = wrapped ''list<'' s"

definition setPattern :: "string \<Rightarrow> string option" where
  "setPattern s = wrapped ''set<'' s"

section \<open>The type mapper\<close>

text \<open>
  The error value of \<open>cqlToGoType\<close> is \<open>fmt.Errorf("unknown CQL type: %s", cqlType)\<close>;
  it carries the normalised token that matched no rule. \<open>IndexOutOfRange\<close> is the
  run-time panic of \<open>camel[0]\<close> on an empty string in \<open>toPascal\<close>.

  The mapper calls itself on the groups of the normalised string. With no assumption on
  \<open>mapLower\<close> the recursion need not end, so the result is an option: \<open>None\<close> is a call
  that does not return, \<open>Some (Inl err)\<close> the returned error and \<open>Some (Inr goType)\<close>
  the returned Go type.
\<close>

datatype error = UnknownCQLType string | IndexOutOfRange

definition scalarType :: "string \<Rightarrow> error + string" where
  "scalarType cqlType =
     (if cqlType = ''uuid'' \<or> cqlType = ''time.uuid'' then Inr ''gocql.UUID''
      else if cqlType = ''boolean'' then Inr ''bool''
      else if cqlType = ''text'' \<or> cqlType = ''varchar'' then Inr ''string''
      else if cqlType = ''int'' then Inr ''int''
      else if cqlType = ''bigint'' then Inr ''int64''
      else if cqlType = ''tinyint'' then Inr ''int8''
      else if cqlType = ''smallint'' then Inr ''int16''
      else if cqlType = ''float'' then Inr ''float32''
      else if cqlType = ''double'' then Inr ''float64''
      else if cqlType = ''decimal'' then Inr ''gocql.Decimal''
      else if cqlType = ''timestamp'' then Inr ''time.Time''
      else if cqlType = ''date'' then Inr ''gocql.Date''
      else if cqlType = ''time'' then Inr ''gocql.Time''
      else if cqlType = ''blob'' then Inr ''[]byte''
      else Inl (UnknownCQLType cqlType))"

partial_function (option) cqlToGoType ::
  "(string \<Rightarrow> string) \<Rightarrow> string \<Rightarrow> (error + string) option" where
  "cqlToGoType mapLower raw =
     (case mapPattern (ToLower mapLower (TrimSpace raw)) of
        Some (keyType, valueType) \<Rightarrow>
          Option.bind (cqlToGoType mapLower keyType) (\<lambda>key.
            case key of
              Inl err \<Rightarrow> Some (Inl err)
            | Inr goKeyType \<Rightarrow>
                Option.bind (cqlToGoType mapLower valueType) (\<lambda>val.
                  case val of
                    Inl err \<Rightarrow> Some (Inl err)
                  | Inr goValueType \<Rightarrow>
                      Some (Inr (''map['' @ goKeyType @ '']'' @ goValueType))))
      | None \<Rightarrow>
          (case listPattern (ToLower mapLower (TrimSpace raw)) of
             Some elemType \<Rightarrow>
               Option.bind (cqlToGoType mapLower elemType) (\<lambda>elem.
                 case elem of
                   Inl err \<Rightarrow> Some (Inl err)
                 | Inr goElemType \<Rightarrow> Some (Inr (''[]'' @ goElemType)))
           | None \<Rightarrow>
               (case setPattern (ToLower mapLower (TrimSpace raw)) of
                  Some elemType \<Rightarrow>
                    Option.bind (cqlToGoType mapLower elemType) (\<lambda>elem.
                      case elem of
                        Inl err \<Rightarrow> Some (Inl err)
                      | Inr goElemType \<Rightarrow>
                          Some (Inr (''map['' @ goElemType @ '']struct{}'')))
                | None \<Rightarrow> Some (scalarType (ToLower mapLower (TrimSpace raw))))))"

section \<open>Identifiers\<close>

text \<open>
  \<open>strcase.ToCamel\<close> belongs to a library outside this repository. It is a parameter
  \<open>camel\<close> of every function that calls it, and the theorems below hold for every
  casing function.

  \<open>toPascal\<close> reads the first byte of the cased name as a rune, upper-cases it with
  \<open>unicode.ToUpper\<close> and converts the rune back to a string, which encodes it in UTF-8.
  A byte is a code point below 256: there \<open>unicode.ToUpper\<close> changes the letters \<open>a\<close> to
  \<open>z\<close>, the micro sign, and the Latin-1 lower-case letters; a code point from 128 on is
  encoded in two bytes. Indexing an empty string panics.
\<close>

definition unicodeToUpper :: "nat \<Rightarrow> nat" where
  "unicodeToUpper r =
     (if 97 \<le> r \<and> r \<le> 122 then r - 32
      else if r = 181 then 924
      else if (224 \<le> r \<and> r \<le> 246) \<or> (248 \<le> r \<and> r \<le> 254) then r - 32
      else if r = 255 then 376
      else r)"

definition runeToString :: "nat \<Rightarrow> string" where
  "runeToString r =
     (if r < 128 then [char_of r]
      else [char_of (192 + r div 64), char_of (128 + r mod 64)])"

definition toPascal :: "(string \<Rightarrow> string) \<Rightarrow> string \<Rightarrow> error + string" where
  "toPascal camel v =
     (case camel v of
        [] \<Rightarrow> Inl IndexOutOfRange
      | c # cs \<Rightarrow> Inr (runeToString (unicodeToUpper (of_char c)) @ cs))"

section \<open>Struct generation\<close>

text \<open>
  \<open>columns\<close> is a Go \<open>map[string]string\<close>. Go does not fix the order in which
  \<open>range\<close> visits a map, and it may differ from one loop to the next. The model takes the
  columns as the list of entries in the order the loop visits them: one map is all the
  lists with the same entries, and the keys of a list are distinct.
\<close>

type_synonym columns = "(string \<times> string) list"

text \<open>
  One field line: four spaces, \<open>strcase.ToCamel(column)\<close>, a space, the Go type, a
  space, and the tag: a back quote, \<open>json:\<close>, the column name between double quotes,
  a back quote and a line feed.
\<close>

definition fieldLine :: "(string \<Rightarrow> string) \<Rightarrow> string \<Rightarrow> string \<Rightarrow> string" where
  "fieldLine camel column goType =
     ''    '' @ camel column @ '' '' @ goType @ '' `json:'' @ [CHR 0x22] @ column
       @ [CHR 0x22] @ ''`'' @ [CHR 0x0A]"

fun structFields ::
  "(string \<Rightarrow> string) \<Rightarrow> (string \<Rightarrow> string) \<Rightarrow> string \<Rightarrow> columns
     \<Rightarrow> (error + string) option" where
  "structFields mapLower camel structDefinition [] = Some (Inr structDefinition)"
| "structFields mapLower camel structDefinition ((column, cqlType) # rest) =
     (case cqlToGoType mapLower cqlType of
        None \<Rightarrow> None
      | Some (Inl err) \<Rightarrow> Some (Inl err)
      | Some (Inr goType) \<Rightarrow>
          structFields mapLower camel (structDefinition @ fieldLine camel column goType) rest)"

definition generateGoStruct ::
  "(string \<Rightarrow> string) \<Rightarrow> (string \<Rightarrow> string) \<Rightarrow> string \<Rightarrow> columns
     \<Rightarrow> (error + string) option" where
  "generateGoStruct mapLower camel tableName columns =
     (case toPascal camel tableName of
        Inl err \<Rightarrow> Some (Inl err)
      | Inr name \<Rightarrow>
          (case structFields mapLower camel
                  (''type '' @ name @ '' struct {'' @ [CHR 0x0A]) columns of
             None \<Rightarrow> None
           | Some (Inl err) \<Rightarrow> Some (Inl err)
           | Some (Inr structDefinition) \<Rightarrow>
               Some (Inr (structDefinition @ ''}'' @ [CHR 0x0A]))))"

section \<open>The loop of main over the tables\<close>

text \<open>
  \<open>fetchColumnDefinitions\<close> stands for the function of that name on the open session:
  for a table name it gives the catalog's error message or the column map. When the
  fetch fails, main logs a line and continues with the next table. When
  \<open>generateGoStruct\<close> fails, main calls \<open>panic(err)\<close>: the result \<open>Some (Inl err)\<close> of
  the loop is that panic, which ends the process before anything is written. The state
  of the loop is the log and the struct definitions collected so far.
\<close>

fun mainLoop ::
  "(string \<Rightarrow> string) \<Rightarrow> (string \<Rightarrow> string) \<Rightarrow> (string \<Rightarrow> string + columns)
     \<Rightarrow> string list \<Rightarrow> string list \<times> string list
     \<Rightarrow> (error + string list \<times> string list) option" where
  "mainLoop mapLower camel fetchColumnDefinitions [] st = Some (Inr st)"
| "mainLoop mapLower camel fetchColumnDefinitions (tableName # rest)
       (logged, structDefinitions) =
     (case fetchColumnDefinitions tableName of
        Inl err \<Rightarrow>
          mainLoop mapLower camel fetchColumnDefinitions rest
            (logged @ [''Error fetching column definitions for table '' @ tableName
                        @ '': '' @ err],
             structDefinitions)
      | Inr columns \<Rightarrow>
          (case generateGoStruct mapLower camel tableName columns of
             None \<Rightarrow> None
           | Some (Inl err) \<Rightarrow> Some (Inl err)
           | Some (Inr structDef) \<Rightarrow>
               mainLoop mapLower camel fetchColumnDefinitions rest
                 (logged, structDefinitions @ [structDef])))"

section \<open>Names and inputs used in the statements\<close>

text \<open>
  The scalar kinds of the specification, each with the catalog name that the type mapper
  looks up and the Go type it returns for it.
\<close>

datatype ScalarKind =
  Boolean | Text | Int32 | Int64 | Int8 | Int16 | Float32 | Float64
  | Decimal | Timestamp | Date | Time | Blob | Identifier

fun kindName :: "ScalarKind \<Rightarrow> string" where
  "kindName Boolean = ''boolean''"
| "kindName Text = ''text''"
| "kindName Int32 = ''int''"
| "kindName Int64 = ''bigint''"
| "kindName Int8 = ''tinyint''"
| "kindName Int16 = ''smallint''"
| "kindName Float32 = ''float''"
| "kindName Float64 = ''double''"
| "kindName Decimal = ''decimal''"
| "kindName Timestamp = ''timestamp''"
| "kindName Date = ''date''"
| "kindName Time = ''time''"
| "kindName Blob = ''blob''"
| "kindName Identifier = ''uuid''"

fun kindGo :: "ScalarKind \<Rightarrow> string" where
  "kindGo Boolean = ''bool''"
| "kindGo Text = ''string''"
| "kindGo Int32 = ''int''"
| "kindGo Int64 = ''int64''"
| "kindGo Int8 = ''int8''"
| "kindGo Int16 = ''int16''"
| "kindGo Float32 = ''float32''"
| "kindGo Float64 = ''float64''"
| "kindGo Decimal = ''gocql.Decimal''"
| "kindGo Timestamp = ''time.Time''"
| "kindGo Date = ''gocql.Date''"
| "kindGo Time = ''gocql.Time''"
| "kindGo Blob = ''[]byte''"
| "kindGo Identifier = ''gocql.UUID''"

definition allKinds :: "ScalarKind list" where
  "allKinds = [Boolean, Text, Int32, Int64, Int8, Int16, Float32, Float64,
     Decimal, Timestamp, Date, Time, Blob, Identifier]"

definition scalarNames :: "string list" where
  "scalarNames = map kindName allKinds"

text \<open>
  The type descriptors of the specification, the type string of a descriptor after the
  grammar \<open>MAP := "map<" TYPE "," TYPE ">"\<close>, \<open>LIST := "list<" TYPE ">"\<close>,
  \<open>SET := "set<" TYPE ">"\<close>, and the Go type that renders it.
\<close>

datatype TypeDescriptor =
  Scalar ScalarKind
  | List TypeDescriptor
  | Set TypeDescriptor
  | Map TypeDescriptor TypeDescriptor

fun typeString :: "TypeDescriptor \<Rightarrow> string" where
  "typeString (Scalar k) = kindName k"
| "typeString (List e) = ''list<'' @ typeString e @ ''>''"
| "typeString (Set e) = ''set<'' @ typeString e @ ''>''"
| "typeString (Map k v) = ''map<'' @ typeString k @ '','' @ typeString v @ ''>''"

fun render :: "TypeDescriptor \<Rightarrow> string" where
  "render (Scalar k) = kindGo k"
| "render (List e) = ''[]'' @ render e"
| "render (Set e) = ''map['' @ render e @ '']struct{}''"
| "render (Map k v) = ''map['' @ render k @ '']'' @ render v"

fun depth :: "TypeDescriptor \<Rightarrow> nat" where
  "depth (Scalar k) = 0"
| "depth (List e) = Suc (depth e)"
| "depth (Set e) = Suc (depth e)"
| "depth (Map k v) = Suc (max (depth k) (depth v))"

text \<open>
  A descriptor has flat values when no map in it has a map anywhere inside its value
  type; \<open>map<map<int,int>,text>\<close> has flat values, \<open>map<text,map<int,int>>\<close> has not.
\<close>

fun hasMap :: "TypeDescriptor \<Rightarrow> bool" where
  "hasMap (Scalar k) = False"
| "hasMap (List e) = hasMap e"
| "hasMap (Set e) = hasMap e"
| "hasMap (Map k v) = True"

fun flatValues :: "TypeDescriptor \<Rightarrow> bool" where
  "flatValues (Scalar k) = True"
| "flatValues (List e) = flatValues e"
| "flatValues (Set e) = flatValues e"
| "flatValues (Map k v) = (flatValues k \<and> flatValues v \<and> \<not> hasMap v)"

text \<open>
  For the proofs about type strings: the ASCII characters that are neither white space
  nor upper-case letters, the parts of a string that follow one of its commas, and the numbers of opening
  and closing angle brackets of a string.
\<close>

definition plain :: "char \<Rightarrow> bool" where
  "plain c = (let n = (of_char c :: nat) in
     n < 128 \<and> (n < 9 \<or> 13 < n) \<and> n \<noteq> 32 \<and> (n < 65 \<or> 90 < n))"

fun afterCommas :: "string \<Rightarrow> string list" where
  "afterCommas [] = []"
| "afterCommas (c # cs) = (if c = CHR '','' then [cs] else []) @ afterCommas cs"

definition opens :: "string \<Rightarrow> nat" where
  "opens s = length (filter (\<lambda>c. c = CHR ''<'') s)"

definition closes :: "string \<Rightarrow> nat" where
  "closes s = length (filter (\<lambda>c. c = CHR ''>'') s)"

text \<open>
  A casing function given by a finite table, for evaluating the generator at concrete
  names; a name outside the table is left as it is.
\<close>

definition casing :: "(string \<times> string) list \<Rightarrow> string \<Rightarrow> string" where
  "casing table s = (case map_of table s of Some r \<Rightarrow> r | None \<Rightarrow> s)"

text \<open>A catalog given by a finite table of the tables whose columns can be fetched.\<close>

definition catalog :: "(string \<times> columns) list \<Rightarrow> string \<Rightarrow> string + columns" where
  "catalog tables t =
     (case map_of tables t of Some cols \<Rightarrow> Inr cols | None \<Rightarrow> Inl ''unavailable'')"

text \<open>
  For a list of tables: whether generation succeeds for every table whose columns are
  fetched, the lines that main logs (one for each table whose columns cannot be fetched),
  and the struct definitions of the tables whose columns are fetched.
\<close>

definition allGenerate ::
  "(string \<Rightarrow> string) \<Rightarrow> (string \<Rightarrow> string) \<Rightarrow> (string \<Rightarrow> string + columns)
     \<Rightarrow> string list \<Rightarrow> bool" where
  "allGenerate mapLower camel fetchColumnDefinitions tableNames =
     list_all (\<lambda>tableName.
         case fetchColumnDefinitions tableName of
           Inl err \<Rightarrow> True
         | Inr columns \<Rightarrow>
             (case generateGoStruct mapLower camel tableName columns of
                Some (Inr structDef) \<Rightarrow> True
              | _ \<Rightarrow> False))
       tableNames"

definition loggedFor :: "(string \<Rightarrow> string + columns) \<Rightarrow> string list \<Rightarrow> string list" where
  "loggedFor fetchColumnDefinitions tableNames =
     concat (map (\<lambda>tableName.
         case fetchColumnDefinitions tableName of
           Inl err \<Rightarrow>
             [''Error fetching column definitions for table '' @ tableName @ '': '' @ err]
         | Inr columns \<Rightarrow> [])
       tableNames)"

definition generatedFor ::
  "(string \<Rightarrow> string) \<Rightarrow> (string \<Rightarrow> string) \<Rightarrow> (string \<Rightarrow> string + columns)
     \<Rightarrow> string list \<Rightarrow> string list" where
  "generatedFor mapLower camel fetchColumnDefinitions tableNames =
     concat (map (\<lambda>tableName.
         case fetchColumnDefinitions tableName of
           Inl err \<Rightarrow> []
         | Inr columns \<Rightarrow>
             (case generateGoStruct mapLower camel tableName columns of
                Some (Inr structDef) \<Rightarrow> [structDef]
              | _ \<Rightarrow> []))
       tableNames)"

text \<open>
  The values of \<open>strcase.ToCamel\<close> on the names of the examples below.
\<close>

definition sampleCasing :: "string \<Rightarrow> string" where
  "sampleCasing =
     casing [(''users'', ''Users''), (''events'', ''Events''), (''id'', ''Id''),
       (''name'', ''Name''), (''addr'', ''Addr''), (''user_id'', ''UserId''),
       (''userId'', ''UserId''), (''1st'', ''1St'')]"

section \<open>Trimming\<close>

lemma stripPrefix_iff: "stripPrefix p s = Some r \<longleftrightarrow> s = p @ r"
  by (induction p s rule: stripPrefix.induct) auto

lemma stripOne_Some:
  "stripOne ps s = Some r \<Longrightarrow> \<exists>p \<in> set ps. s = p @ r"
  by (induction ps) (auto simp: stripPrefix_iff split: option.splits)

lemma stripOne_shorter:
  assumes "stripOne (filter (\<lambda>p. p \<noteq> []) seqs) s = Some r"
  shows "length r < length s"
proof -
  from stripOne_Some [OF assms] obtain p where "p \<noteq> []" "s = p @ r"
    by auto
  then show ?thesis by simp
qed

termination trimLeft
  by (relation "measure (\<lambda>(seqs, s). length s)") (auto dest: stripOne_shorter)

declare trimLeft.simps [simp del]

declare cqlToGoType.simps [code]

section \<open>Tokens that match no collection pattern\<close>

lemma stripPrefix_set: "stripPrefix p s = Some r \<Longrightarrow> set r \<subseteq> set s"
  by (auto simp: stripPrefix_iff)

lemma wrapped_closing: "wrapped pre s = Some body \<Longrightarrow> CHR ''>'' \<in> set s"
proof -
  assume "wrapped pre s = Some body"
  then obtain r where r: "stripPrefix pre s = Some r" "r \<noteq> []" "last r = CHR ''>''"
    by (auto simp: wrapped_def split: option.splits if_splits)
  from r(2,3) have "CHR ''>'' \<in> set r"
    using last_in_set by metis
  with stripPrefix_set [OF r(1)] show ?thesis by blast
qed

lemma no_closing_no_pattern:
  assumes "CHR ''>'' \<notin> set s"
  shows "mapPattern s = None" and "listPattern s = None" and "setPattern s = None"
proof -
  have "wrapped pre s = None" for pre
    using assms wrapped_closing [of pre s] by (cases "wrapped pre s") auto
  then show "mapPattern s = None" and "listPattern s = None" and "setPattern s = None"
    by (simp_all add: mapPattern_def listPattern_def setPattern_def)
qed

lemma cqlToGoType_no_pattern:
  assumes "mapPattern (ToLower mapLower (TrimSpace raw)) = None"
    and "listPattern (ToLower mapLower (TrimSpace raw)) = None"
    and "setPattern (ToLower mapLower (TrimSpace raw)) = None"
  shows "cqlToGoType mapLower raw = Some (scalarType (ToLower mapLower (TrimSpace raw)))"
  by (subst cqlToGoType.simps) (simp add: assms)

lemma cqlToGoType_scalar:
  assumes "CHR ''>'' \<notin> set (ToLower mapLower (TrimSpace raw))"
  shows "cqlToGoType mapLower raw = Some (scalarType (ToLower mapLower (TrimSpace raw)))"
  using no_closing_no_pattern [OF assms] by (rule cqlToGoType_no_pattern)

lemma cqlToGoType_map:
  assumes "mapPattern (ToLower mapLower (TrimSpace raw)) = Some (k, v)"
  shows "cqlToGoType mapLower raw =
     Option.bind (cqlToGoType mapLower k) (\<lambda>key.
       case key of
         Inl err \<Rightarrow> Some (Inl err)
       | Inr gk \<Rightarrow>
           Option.bind (cqlToGoType mapLower v) (\<lambda>val.
             case val of
               Inl err \<Rightarrow> Some (Inl err)
             | Inr gv \<Rightarrow> Some (Inr (''map['' @ gk @ '']'' @ gv))))"
  by (subst cqlToGoType.simps) (simp add: assms)

lemma cqlToGoType_list:
  assumes "mapPattern (ToLower mapLower (TrimSpace raw)) = None"
    and "listPattern (ToLower mapLower (TrimSpace raw)) = Some e"
  shows "cqlToGoType mapLower raw =
     Option.bind (cqlToGoType mapLower e) (\<lambda>elem.
       case elem of Inl err \<Rightarrow> Some (Inl err) | Inr g \<Rightarrow> Some (Inr (''[]'' @ g)))"
  by (subst cqlToGoType.simps) (simp add: assms)

lemma cqlToGoType_set:
  assumes "mapPattern (ToLower mapLower (TrimSpace raw)) = None"
    and "listPattern (ToLower mapLower (TrimSpace raw)) = None"
    and "setPattern (ToLower mapLower (TrimSpace raw)) = Some e"
  shows "cqlToGoType mapLower raw =
     Option.bind (cqlToGoType mapLower e) (\<lambda>elem.
       case elem of
         Inl err \<Rightarrow> Some (Inl err)
       | Inr g \<Rightarrow> Some (Inr (''map['' @ g @ '']struct{}'')))"
  by (subst cqlToGoType.simps) (simp add: assms)

section \<open>The scalar names\<close>

lemma kindName_no_closing: "CHR ''>'' \<notin> set (kindName k)"
  by (cases k) simp_all

lemma scalarType_kind: "scalarType (kindName k) = Inr (kindGo k)"
  by (cases k) (simp_all add: scalarType_def)

lemma scalarType_unknown:
  assumes "n \<notin> set scalarNames" and "n \<noteq> ''varchar''" and "n \<noteq> ''time.uuid''"
  shows "scalarType n = Inl (UnknownCQLType n)"
  using assms by (simp add: scalarNames_def allKinds_def scalarType_def)

section \<open>The text of a generated struct\<close>

lemma structFields_Inr_iff:
  "structFields mapLower camel acc cols = Some (Inr s) \<longleftrightarrow>
     (\<exists>gos. list_all2 (\<lambda>col g. cqlToGoType mapLower (snd col) = Some (Inr g)) cols gos
        \<and> s = acc @ concat (map2 (\<lambda>col g. fieldLine camel (fst col) g) cols gos))"
proof (induction cols arbitrary: acc)
  case Nil
  then show ?case by auto
next
  case (Cons col cols)
  obtain c ty where col: "col = (c, ty)" by (cases col)
  show ?case
  proof (cases "cqlToGoType mapLower ty")
    case None
    then show ?thesis by (auto simp: col list_all2_Cons1)
  next
    case (Some r)
    show ?thesis
    proof (cases r)
      case (Inl e)
      with Some show ?thesis by (auto simp: col list_all2_Cons1)
    next
      case (Inr g)
      with Some show ?thesis
        by (auto simp: col Cons.IH list_all2_Cons1)
    qed
  qed
qed

lemma generateGoStruct_ok:
  assumes "toPascal camel t = Inr name"
    and "list_all2 (\<lambda>col g. cqlToGoType mapLower (snd col) = Some (Inr g)) cols gos"
  shows "generateGoStruct mapLower camel t cols =
     Some (Inr (''type '' @ name @ '' struct {'' @ [CHR 0x0A]
          @ concat (map2 (\<lambda>col g. fieldLine camel (fst col) g) cols gos)
          @ ''}'' @ [CHR 0x0A]))"
proof -
  have "structFields mapLower camel (''type '' @ name @ '' struct {'' @ [CHR 0x0A]) cols =
      Some (Inr ((''type '' @ name @ '' struct {'' @ [CHR 0x0A])
           @ concat (map2 (\<lambda>col g. fieldLine camel (fst col) g) cols gos)))"
    using assms(2) structFields_Inr_iff by blast
  then show ?thesis
    by (simp add: generateGoStruct_def assms(1))
qed

lemma generateGoStruct_Inr:
  assumes "generateGoStruct mapLower camel t cols = Some (Inr s)"
  shows "\<exists>name gos. toPascal camel t = Inr name
        \<and> list_all2 (\<lambda>col g. cqlToGoType mapLower (snd col) = Some (Inr g)) cols gos
        \<and> s = ''type '' @ name @ '' struct {'' @ [CHR 0x0A]
              @ concat (map2 (\<lambda>col g. fieldLine camel (fst col) g) cols gos)
              @ ''}'' @ [CHR 0x0A]"
proof -
  from assms obtain name body where name: "toPascal camel t = Inr name"
    and body: "structFields mapLower camel (''type '' @ name @ '' struct {'' @ [CHR 0x0A]) cols
        = Some (Inr body)"
    and s: "s = body @ ''}'' @ [CHR 0x0A]"
    by (auto simp: generateGoStruct_def split: sum.splits option.splits)
  from body obtain gos where
    "list_all2 (\<lambda>col g. cqlToGoType mapLower (snd col) = Some (Inr g)) cols gos"
    and "body = (''type '' @ name @ '' struct {'' @ [CHR 0x0A])
           @ concat (map2 (\<lambda>col g. fieldLine camel (fst col) g) cols gos)"
    using structFields_Inr_iff by blast
  with name s show ?thesis by auto
qed

section \<open>The first byte of a cased name\<close>

lemma unicodeToUpper_below_a: "r < 97 \<Longrightarrow> unicodeToUpper r = r"
  by (simp add: unicodeToUpper_def)

lemma runeToString_nonempty: "runeToString r \<noteq> []"
  by (simp add: runeToString_def)

section \<open>The loop over the tables\<close>

lemma structFields_first_error:
  assumes "list_all2 (\<lambda>col g. cqlToGoType mapLower (snd col) = Some (Inr g)) before gos"
    and "cqlToGoType mapLower cqlType = Some (Inl err)"
  shows "structFields mapLower camel acc (before @ (column, cqlType) # after) = Some (Inl err)"
  using assms(1)
proof (induction before gos arbitrary: acc rule: list_all2_induct)
  case Nil
  then show ?case by (simp add: assms(2))
next
  case (Cons col cols g gos)
  obtain c ty where col: "col = (c, ty)" by (cases col)
  with Cons show ?case by simp
qed

lemma mainLoop_passes:
  assumes "allGenerate mapLower camel fetch before"
  shows "mainLoop mapLower camel fetch (before @ rest) (logged, defs) =
     mainLoop mapLower camel fetch rest
       (logged @ loggedFor fetch before, defs @ generatedFor mapLower camel fetch before)"
  using assms
proof (induction before arbitrary: logged defs)
  case Nil
  then show ?case by (simp add: loggedFor_def generatedFor_def)
next
  case (Cons a ts)
  from Cons.prems have rest: "allGenerate mapLower camel fetch ts"
    by (simp add: allGenerate_def)
  show ?case
  proof (cases "fetch a")
    case (Inl msg)
    with Cons.IH [OF rest] show ?thesis
      by (simp add: loggedFor_def generatedFor_def)
  next
    case (Inr cols)
    with Cons.prems obtain d where d: "generateGoStruct mapLower camel a cols = Some (Inr d)"
      by (auto simp: allGenerate_def split: option.splits sum.splits)
    with Inr Cons.IH [OF rest] show ?thesis
      by (simp add: loggedFor_def generatedFor_def)
  qed
qed

section \<open>What the patterns match\<close>

text \<open>
  The map pattern matches a string exactly when it is \<open>map<\<close>, a first group, a comma, a
  second group and \<open>>\<close>, both groups non-empty and free of line feeds, and no comma of
  the second group comes before its last character: the first group is the longest
  possible.
\<close>

lemma lastComma_None_iff: "lastComma s = None \<longleftrightarrow> CHR '','' \<notin> set s"
  by (induction s) (auto split: option.splits)

lemma lastComma_Some_iff:
  "lastComma s = Some (a, b) \<longleftrightarrow> s = a @ '','' @ b \<and> CHR '','' \<notin> set b"
proof (induction s arbitrary: a b)
  case Nil
  then show ?case by simp
next
  case (Cons c cs)
  show ?case
  proof (cases "lastComma cs")
    case None
    then have "CHR '','' \<notin> set cs" by (simp add: lastComma_None_iff)
    with None show ?thesis
      by (cases a) auto
  next
    case (Some p)
    obtain a' b' where p: "p = (a', b')" by (cases p)
    with Some Cons.IH [of a' b'] have cs: "cs = a' @ '','' @ b'" "CHR '','' \<notin> set b'"
      by auto
    show ?thesis
    proof
      assume "lastComma (c # cs) = Some (a, b)"
      with Some p cs show "c # cs = a @ '','' @ b \<and> CHR '','' \<notin> set b"
        by auto
    next
      assume r: "c # cs = a @ '','' @ b \<and> CHR '','' \<notin> set b"
      have "a \<noteq> []"
      proof
        assume "a = []"
        with r have "cs = b" by simp
        with r cs show False by auto
      qed
      then obtain a'' where a: "a = c # a''" "cs = a'' @ '','' @ b"
        using r by (cases a) auto
      with r Cons.IH [of a'' b] have "lastComma cs = Some (a'', b)" by simp
      with a show "lastComma (c # cs) = Some (a, b)" by simp
    qed
  qed
qed

lemma wrapped_iff:
  "wrapped pre s = Some body \<longleftrightarrow>
     s = pre @ body @ ''>'' \<and> body \<noteq> [] \<and> CHR 0x0A \<notin> set body"
proof
  assume "wrapped pre s = Some body"
  then obtain r where r: "stripPrefix pre s = Some r" "r \<noteq> []" "last r = CHR ''>''"
    "butlast r \<noteq> []" "CHR 0x0A \<notin> set (butlast r)" "body = butlast r"
    by (auto simp: wrapped_def split: option.splits if_splits)
  from r(2,3) have "r = butlast r @ ''>''"
    using append_butlast_last_id by metis
  with r show "s = pre @ body @ ''>'' \<and> body \<noteq> [] \<and> CHR 0x0A \<notin> set body"
    by (simp add: stripPrefix_iff)
next
  assume a: "s = pre @ body @ ''>'' \<and> body \<noteq> [] \<and> CHR 0x0A \<notin> set body"
  then have "stripPrefix pre s = Some (body @ ''>'')"
    by (simp add: stripPrefix_iff)
  with a show "wrapped pre s = Some body"
    by (simp add: wrapped_def)
qed

lemma splitBody_iff:
  "splitBody body = Some (k, v) \<longleftrightarrow>
     body = k @ '','' @ v \<and> k \<noteq> [] \<and> v \<noteq> [] \<and> CHR '','' \<notin> set (butlast v)"
proof
  assume "splitBody body = Some (k, v)"
  then obtain c0 rest a b where b: "body = c0 # rest" "rest \<noteq> []"
    "lastComma (butlast rest) = Some (a, b)" "k = c0 # a" "v = b @ [last rest]"
    by (auto simp: splitBody_def split: list.splits if_splits option.splits)
  from b(3) have "butlast rest = a @ '','' @ b" "CHR '','' \<notin> set b"
    by (simp_all add: lastComma_Some_iff)
  moreover from b(2) have "rest = butlast rest @ [last rest]" by simp
  ultimately have "rest = a @ '','' @ b @ [last rest]"
    by (metis append.assoc)
  with b \<open>CHR '','' \<notin> set b\<close>
  show "body = k @ '','' @ v \<and> k \<noteq> [] \<and> v \<noteq> [] \<and> CHR '','' \<notin> set (butlast v)"
    by simp
next
  assume a: "body = k @ '','' @ v \<and> k \<noteq> [] \<and> v \<noteq> [] \<and> CHR '','' \<notin> set (butlast v)"
  then obtain c0 k' where k: "k = c0 # k'" by (cases k) auto
  from a have v: "v = butlast v @ [last v]" by simp
  let ?rest = "k' @ '','' @ v"
  have rest: "?rest \<noteq> []" "last ?rest = last v" using a by auto
  have "butlast ?rest = k' @ '','' @ butlast v"
    using a by (simp add: butlast_append)
  then have "lastComma (butlast ?rest) = Some (k', butlast v)"
    using a by (simp add: lastComma_Some_iff)
  with a k rest v show "splitBody body = Some (k, v)"
    by (simp add: splitBody_def)
qed

lemma mapPattern_iff:
  "mapPattern s = Some (k, v) \<longleftrightarrow>
     s = ''map<'' @ k @ '','' @ v @ ''>'' \<and> k \<noteq> [] \<and> v \<noteq> []
     \<and> CHR 0x0A \<notin> set k \<and> CHR 0x0A \<notin> set v \<and> CHR '','' \<notin> set (butlast v)"
proof
  assume "mapPattern s = Some (k, v)"
  then obtain body where "wrapped ''map<'' s = Some body" "splitBody body = Some (k, v)"
    by (auto simp: mapPattern_def split: option.splits)
  then show "s = ''map<'' @ k @ '','' @ v @ ''>'' \<and> k \<noteq> [] \<and> v \<noteq> []
     \<and> CHR 0x0A \<notin> set k \<and> CHR 0x0A \<notin> set v \<and> CHR '','' \<notin> set (butlast v)"
    by (auto simp: wrapped_iff splitBody_iff)
next
  assume a: "s = ''map<'' @ k @ '','' @ v @ ''>'' \<and> k \<noteq> [] \<and> v \<noteq> []
     \<and> CHR 0x0A \<notin> set k \<and> CHR 0x0A \<notin> set v \<and> CHR '','' \<notin> set (butlast v)"
  then have "wrapped ''map<'' s = Some (k @ '','' @ v)"
    by (simp add: wrapped_iff)
  moreover from a have "splitBody (k @ '','' @ v) = Some (k, v)"
    by (simp add: splitBody_iff)
  ultimately show "mapPattern s = Some (k, v)"
    by (simp add: mapPattern_def)
qed


lemma mapPattern_greedy:
  assumes "mapPattern s = Some (k, v)"
    and "s = ''map<'' @ k' @ '','' @ v' @ ''>''" and "v' \<noteq> []"
  shows "length k' \<le> length k"
proof (rule ccontr)
  assume "\<not> length k' \<le> length k"
  then have less: "length k < length k'" by simp
  from assms(1) have s: "s = ''map<'' @ k @ '','' @ v @ ''>''" and v: "CHR '','' \<notin> set (butlast v)"
    by (simp_all add: mapPattern_iff)
  from s assms(2) have eq: "k @ '','' @ v = k' @ '','' @ v'" by simp
  then have "take (length k) k' = k"
    using less by (metis append_eq_append_conv_if less_imp_le_nat)
  then obtain w where k': "k' = k @ w" "w \<noteq> []"
    using less by (metis append_take_drop_id append_Nil2 less_irrefl)
  with eq have "'','' @ v = w @ '','' @ v'" by simp
  with k'(2) obtain w' where "w = CHR '','' # w'" "v = w' @ '','' @ v'"
    by (cases w) auto
  with assms(3) have "CHR '','' \<in> set (butlast v)"
    by (simp add: butlast_append)
  with v show False by simp
qed

section \<open>Strings that normalisation leaves alone\<close>

lemma stripOne_other_head:
  assumes "c \<notin> set (map hd ps)"
  shows "stripOne (filter (\<lambda>p. p \<noteq> []) ps) (c # cs) = None"
  using assms
proof (induction ps)
  case Nil
  then show ?case by simp
next
  case (Cons p ps)
  then show ?case by (cases p) auto
qed

lemma trimLeft_other_head:
  assumes "c \<notin> set (map hd seqs)"
  shows "trimLeft seqs (c # cs) = c # cs"
  by (subst trimLeft.simps) (simp add: stripOne_other_head [OF assms])

lemma plain_not_space:
  assumes "plain c"
  shows "c \<notin> set (map hd spaceRunes)" and "c \<notin> set (map hd (map rev spaceRunes))"
  using assms by (auto simp: plain_def spaceRunes_def Let_def)

lemma plain_lower: "plain c \<Longrightarrow> toLowerByte c = c"
  by (auto simp: plain_def toLowerByte_def Let_def)

lemma plain_ascii: "list_all plain s \<Longrightarrow> ascii s"
  by (auto simp: ascii_def plain_def list_all_iff Let_def)

lemma plain_normalised:
  assumes "list_all plain s" and "s \<noteq> []"
  shows "ToLower mapLower (TrimSpace s) = s"
proof -
  from assms obtain c cs where s: "s = c # cs" "plain c"
    by (cases s) auto
  then have left: "trimLeft spaceRunes s = s"
    using trimLeft_other_head [OF plain_not_space(1)] by simp
  from assms have "rev s \<noteq> []" "plain (hd (rev s))"
    by (auto simp: hd_rev list_all_iff)
  then obtain d ds where r: "rev s = d # ds" "plain d"
    by (cases "rev s") auto
  then have "trimLeft (map rev spaceRunes) (rev s) = rev s"
    using trimLeft_other_head [OF plain_not_space(2)] by simp
  with left have "TrimSpace s = s"
    by (simp add: TrimSpace_def)
  moreover have "map toLowerByte s = s"
    using assms(1) by (auto simp: list_all_iff plain_lower intro: map_idI)
  ultimately show ?thesis
    using plain_ascii [OF assms(1)] by (simp add: ToLower_def)
qed

section \<open>Type strings that the mapper parses\<close>

lemma plain_kindName: "list_all plain (kindName k)"
  by (cases k) (simp_all add: plain_def)

lemma plain_typeString: "list_all plain (typeString d)"
  by (induction d) (simp_all add: plain_kindName, simp_all add: plain_def)

lemma kindName_nonempty: "kindName k \<noteq> []"
  by (cases k) simp_all

lemma typeString_nonempty: "typeString d \<noteq> []"
  by (induction d) (simp_all add: kindName_nonempty)

lemma typeString_normalised: "ToLower mapLower (TrimSpace (typeString d)) = typeString d"
  by (rule plain_normalised [OF plain_typeString typeString_nonempty])

lemma typeString_no_newline: "CHR 0x0A \<notin> set (typeString d)"
proof
  assume "CHR 0x0A \<in> set (typeString d)"
  with plain_typeString [of d] have "plain (CHR 0x0A)"
    by (simp add: list_all_iff)
  then show False by (simp add: plain_def)
qed

lemma kindName_no_comma: "CHR '','' \<notin> set (kindName k)"
  by (cases k) simp_all

lemma typeString_comma: "CHR '','' \<in> set (typeString d) \<longleftrightarrow> hasMap d"
  by (induction d) (auto simp: kindName_no_comma)

lemma list_string_patterns:
  assumes "CHR 0x0A \<notin> set e" and "e \<noteq> []"
  shows "mapPattern (''list<'' @ e @ ''>'') = None"
    and "listPattern (''list<'' @ e @ ''>'') = Some e"
  using assms by (simp_all add: mapPattern_def wrapped_def listPattern_def wrapped_iff)

lemma set_string_patterns:
  assumes "CHR 0x0A \<notin> set e" and "e \<noteq> []"
  shows "mapPattern (''set<'' @ e @ ''>'') = None"
    and "listPattern (''set<'' @ e @ ''>'') = None"
    and "setPattern (''set<'' @ e @ ''>'') = Some e"
  using assms
  by (simp_all add: mapPattern_def wrapped_def listPattern_def setPattern_def wrapped_iff)

lemma cqlToGoType_list_string:
  "cqlToGoType mapLower (typeString (List e)) =
     Option.bind (cqlToGoType mapLower (typeString e)) (\<lambda>elem.
       case elem of Inl err \<Rightarrow> Some (Inl err) | Inr g \<Rightarrow> Some (Inr (''[]'' @ g)))"
proof -
  have n: "ToLower mapLower (TrimSpace (typeString (List e))) = ''list<'' @ typeString e @ ''>''"
    using typeString_normalised [of mapLower "List e"] by simp
  show ?thesis
    by (rule cqlToGoType_list; simp only: n;
        rule list_string_patterns [OF typeString_no_newline typeString_nonempty])
qed

lemma cqlToGoType_set_string:
  "cqlToGoType mapLower (typeString (Set e)) =
     Option.bind (cqlToGoType mapLower (typeString e)) (\<lambda>elem.
       case elem of
         Inl err \<Rightarrow> Some (Inl err)
       | Inr g \<Rightarrow> Some (Inr (''map['' @ g @ '']struct{}'')))"
proof -
  have n: "ToLower mapLower (TrimSpace (typeString (Set e))) = ''set<'' @ typeString e @ ''>''"
    using typeString_normalised [of mapLower "Set e"] by simp
  show ?thesis
    by (rule cqlToGoType_set; simp only: n;
        rule set_string_patterns [OF typeString_no_newline typeString_nonempty])
qed

theorem flat_values_parse:
  "flatValues d \<Longrightarrow> cqlToGoType mapLower (typeString d) = Some (Inr (render d))"
proof (induction d)
  case (Scalar k)
  have "CHR ''>'' \<notin> set (ToLower mapLower (TrimSpace (typeString (Scalar k))))"
    using kindName_no_closing [of k] by (simp only: typeString_normalised) simp
  then have "cqlToGoType mapLower (typeString (Scalar k))
      = Some (scalarType (ToLower mapLower (TrimSpace (typeString (Scalar k)))))"
    by (rule cqlToGoType_scalar)
  then show ?case by (simp only: typeString_normalised) (simp add: scalarType_kind)
next
  case (List e)
  then show ?case by (simp only: cqlToGoType_list_string) simp
next
  case (Set e)
  then show ?case by (simp only: cqlToGoType_set_string) simp
next
  case (Map k v)
  from Map.prems have "CHR '','' \<notin> set (typeString v)"
    by (simp add: typeString_comma)
  then have "CHR '','' \<notin> set (butlast (typeString v))"
    using in_set_butlastD by metis
  then have "mapPattern (typeString (Map k v)) = Some (typeString k, typeString v)"
    using typeString_no_newline typeString_nonempty by (simp add: mapPattern_iff)
  then have "mapPattern (ToLower mapLower (TrimSpace (typeString (Map k v))))
      = Some (typeString k, typeString v)"
    by (simp only: typeString_normalised)
  from cqlToGoType_map [OF this] Map show ?case by simp
qed

lemma depth_one_flat: "depth d \<le> 1 \<Longrightarrow> flatValues d"
proof (cases d)
  case (List e)
  assume "depth d \<le> 1"
  with List show ?thesis by (cases e) simp_all
next
  case (Set e)
  assume "depth d \<le> 1"
  with Set show ?thesis by (cases e) simp_all
next
  case (Map k v)
  assume "depth d \<le> 1"
  with Map show ?thesis by (cases k; cases v) simp_all
qed simp

section \<open>Type strings that the mapper rejects\<close>

text \<open>
  On an ASCII string the mapper returns, and a string that it accepts has as many
  opening as closing angle brackets. In the type string of a descriptor, whatever
  follows a comma has more closing than opening brackets; so when the second group of
  the map pattern is not the whole value type, it is rejected.
\<close>

lemma afterCommas_append:
  "afterCommas (x @ y) = map (\<lambda>b. b @ y) (afterCommas x) @ afterCommas y"
  by (induction x) auto

lemma after_comma_listed: "b \<in> set (afterCommas (a @ '','' @ b))"
  by (simp add: afterCommas_append)

lemma opens_append: "opens (x @ y) = opens x + opens y"
  by (simp add: opens_def)

lemma closes_append: "closes (x @ y) = closes x + closes y"
  by (simp add: closes_def)

lemma opens_Cons: "opens (c # s) = (if c = CHR ''<'' then 1 else 0) + opens s"
  by (simp add: opens_def)

lemma closes_Cons: "closes (c # s) = (if c = CHR ''>'' then 1 else 0) + closes s"
  by (simp add: closes_def)

lemma counts_Nil: "opens [] = 0" "closes [] = 0"
  by (simp_all add: opens_def closes_def)

lemmas counts = opens_append closes_append opens_Cons closes_Cons counts_Nil

lemma kindName_counts:
  "opens (kindName k) = 0 \<and> closes (kindName k) = 0 \<and> afterCommas (kindName k) = []"
  by (cases k) (simp_all add: opens_def closes_def)

lemma typeString_balanced: "opens (typeString d) = closes (typeString d)"
  by (induction d) (simp_all add: kindName_counts counts)

lemma typeString_after_comma:
  "b \<in> set (afterCommas (typeString d)) \<Longrightarrow> opens b < closes b"
proof (induction d arbitrary: b)
  case (Scalar k)
  then show ?case by (simp add: kindName_counts)
next
  case (List e)
  then obtain b' where "b' \<in> set (afterCommas (typeString e))" "b = b' @ ''>''"
    by (auto simp: afterCommas_append)
  with List.IH [of b'] show ?case
    by (simp add: counts)
next
  case (Set e)
  then obtain b' where "b' \<in> set (afterCommas (typeString e))" "b = b' @ ''>''"
    by (auto simp: afterCommas_append)
  with Set.IH [of b'] show ?case
    by (simp add: counts)
next
  case (Map k v)
  from Map.prems consider
    (key) b' where "b' \<in> set (afterCommas (typeString k))" "b = b' @ '','' @ typeString v @ ''>''"
    | (sep) "b = typeString v @ ''>''"
    | (val) b' where "b' \<in> set (afterCommas (typeString v))" "b = b' @ ''>''"
    by (auto simp: afterCommas_append)
  then show ?case
  proof cases
    case key
    with Map.IH(1) [of b'] typeString_balanced [of v] show ?thesis
      by (simp add: counts)
  next
    case sep
    with typeString_balanced [of v] show ?thesis
      by (simp add: counts)
  next
    case val
    with Map.IH(2) [of b'] show ?thesis
      by (simp add: counts)
  qed
qed

lemma toLowerByte_bracket:
  "toLowerByte c = CHR ''<'' \<longleftrightarrow> c = CHR ''<''"
  "toLowerByte c = CHR ''>'' \<longleftrightarrow> c = CHR ''>''"
proof -
  have up: "(of_char (toLowerByte c) :: nat) = of_char c + 32"
    if "65 \<le> (of_char c :: nat)" "(of_char c :: nat) \<le> 90"
    using that by (simp add: toLowerByte_def)
  have same: "toLowerByte c = c" if "\<not> (65 \<le> (of_char c :: nat) \<and> (of_char c :: nat) \<le> 90)"
    using that by (auto simp: toLowerByte_def Let_def)
  show "toLowerByte c = CHR ''<'' \<longleftrightarrow> c = CHR ''<''"
  proof (cases "65 \<le> (of_char c :: nat) \<and> (of_char c :: nat) \<le> 90")
    case True
    then have "(of_char (toLowerByte c) :: nat) \<noteq> of_char (CHR ''<'')" "c \<noteq> CHR ''<''"
      using up by auto
    then show ?thesis by auto
  next
    case False
    then show ?thesis by (simp add: same)
  qed
  show "toLowerByte c = CHR ''>'' \<longleftrightarrow> c = CHR ''>''"
  proof (cases "65 \<le> (of_char c :: nat) \<and> (of_char c :: nat) \<le> 90")
    case True
    then have "(of_char (toLowerByte c) :: nat) \<noteq> of_char (CHR ''>'')" "c \<noteq> CHR ''>''"
      using up by auto
    then show ?thesis by auto
  next
    case False
    then show ?thesis by (simp add: same)
  qed
qed

lemma trimLeft_keeps:
  assumes "\<forall>p \<in> set seqs. \<forall>x \<in> set p. \<not> P x"
  shows "length (filter P (trimLeft seqs s)) = length (filter P s)"
  using assms
proof (induction seqs s rule: trimLeft.induct)
  case (1 seqs s)
  show ?case
  proof (cases "stripOne (filter (\<lambda>p. p \<noteq> []) seqs) s")
    case None
    then show ?thesis by (subst trimLeft.simps) simp
  next
    case (Some r)
    from stripOne_Some [OF Some] obtain p where p: "p \<in> set seqs" "s = p @ r"
      by auto
    have "filter P p = []"
      using "1.prems" p(1) by (auto simp: filter_empty_conv)
    with Some p "1.IH" [OF Some "1.prems"] show ?thesis
      by (subst trimLeft.simps) simp
  qed
qed

lemma trimLeft_part: "length (trimLeft seqs s) \<le> length s \<and> set (trimLeft seqs s) \<subseteq> set s"
proof (induction seqs s rule: trimLeft.induct)
  case (1 seqs s)
  show ?case
  proof (cases "stripOne (filter (\<lambda>p. p \<noteq> []) seqs) s")
    case None
    then show ?thesis by (subst (1 2) trimLeft.simps) simp
  next
    case (Some r)
    from stripOne_Some [OF Some] obtain p where p: "s = p @ r"
      by auto
    with Some "1.IH" [OF Some] show ?thesis
      by (subst (1 2) trimLeft.simps) auto
  qed
qed

lemma TrimSpace_part: "length (TrimSpace s) \<le> length s \<and> set (TrimSpace s) \<subseteq> set s"
proof -
  let ?t = "trimLeft spaceRunes s"
  have "length (trimLeft (map rev spaceRunes) (rev ?t)) \<le> length (rev ?t)"
    and "set (trimLeft (map rev spaceRunes) (rev ?t)) \<subseteq> set (rev ?t)"
    using trimLeft_part by blast+
  moreover have "length ?t \<le> length s" "set ?t \<subseteq> set s"
    using trimLeft_part by blast+
  ultimately show ?thesis
    by (auto simp: TrimSpace_def)
qed

lemma spaceRunes_no_bracket:
  assumes "p \<in> set spaceRunes \<or> p \<in> set (map rev spaceRunes)"
  shows "CHR ''<'' \<notin> set p \<and> CHR ''>'' \<notin> set p"
  using assms by (auto simp: spaceRunes_def)

lemma TrimSpace_counts: "opens (TrimSpace s) = opens s" "closes (TrimSpace s) = closes s"
proof -
  have keep: "length (filter (\<lambda>x. x = c) (TrimSpace s)) = length (filter (\<lambda>x. x = c) s)"
    if "c = CHR ''<'' \<or> c = CHR ''>''" for c
  proof -
    have l: "length (filter (\<lambda>x. x = c) (trimLeft spaceRunes t)) = length (filter (\<lambda>x. x = c) t)"
      for t
      using that spaceRunes_no_bracket by (intro trimLeft_keeps) blast
    have r: "length (filter (\<lambda>x. x = c) (trimLeft (map rev spaceRunes) t))
        = length (filter (\<lambda>x. x = c) t)" for t
      using that spaceRunes_no_bracket by (intro trimLeft_keeps) blast
    show ?thesis
      by (simp add: TrimSpace_def rev_filter [symmetric] l r)
  qed
  show "opens (TrimSpace s) = opens s" "closes (TrimSpace s) = closes s"
    by (simp_all add: opens_def closes_def keep)
qed

lemma ascii_normalised:
  assumes "ascii s"
  shows "ascii (ToLower mapLower (TrimSpace s))"
    and "length (ToLower mapLower (TrimSpace s)) \<le> length s"
    and "opens (ToLower mapLower (TrimSpace s)) = opens s"
    and "closes (ToLower mapLower (TrimSpace s)) = closes s"
proof -
  from assms TrimSpace_part [of s] have a: "ascii (TrimSpace s)"
    by (auto simp: ascii_def list_all_iff)
  then have n: "ToLower mapLower (TrimSpace s) = map toLowerByte (TrimSpace s)"
    by (simp add: ToLower_def)
  have low: "(of_char (toLowerByte c) :: nat) < 128" if "(of_char c :: nat) < 128" for c
    using that by (auto simp: toLowerByte_def Let_def)
  from a show "ascii (ToLower mapLower (TrimSpace s))"
    by (auto simp: n ascii_def list_all_iff low)
  show "length (ToLower mapLower (TrimSpace s)) \<le> length s"
    using TrimSpace_part [of s] by (simp add: n)
  show "opens (ToLower mapLower (TrimSpace s)) = opens s"
    by (simp add: n opens_def filter_map comp_def toLowerByte_bracket)
      (simp add: opens_def [symmetric] TrimSpace_counts)
  show "closes (ToLower mapLower (TrimSpace s)) = closes s"
    by (simp add: n closes_def filter_map comp_def toLowerByte_bracket)
      (simp add: closes_def [symmetric] TrimSpace_counts)
qed

lemma scalarType_counts:
  assumes "scalarType n = Inr g"
  shows "opens n = 0 \<and> closes n = 0"
proof -
  have "n \<in> set (''varchar'' # ''time.uuid'' # scalarNames)"
  proof (rule ccontr)
    assume "n \<notin> set (''varchar'' # ''time.uuid'' # scalarNames)"
    then have "scalarType n = Inl (UnknownCQLType n)"
      by (intro scalarType_unknown) simp_all
    with assms show False by simp
  qed
  moreover have "list_all (\<lambda>n. opens n = 0 \<and> closes n = 0)
      (''varchar'' # ''time.uuid'' # scalarNames)"
    by code_simp
  ultimately show ?thesis
    unfolding list_all_iff by blast
qed

lemma ascii_append: "ascii (x @ y) \<longleftrightarrow> ascii x \<and> ascii y"
  by (simp add: ascii_def)

lemma ascii_Cons: "ascii (c # s) \<longleftrightarrow> (of_char c :: nat) < 128 \<and> ascii s"
  by (simp add: ascii_def)

theorem ascii_returns:
  "ascii s \<Longrightarrow>
     \<exists>r. cqlToGoType mapLower s = Some r \<and> (\<forall>g. r = Inr g \<longrightarrow> opens s = closes s)"
proof (induction "length s" arbitrary: s rule: less_induct)
  case less
  let ?n = "ToLower mapLower (TrimSpace s)"
  note n = ascii_normalised [OF less.prems, of mapLower]
  have sub: "\<exists>r. cqlToGoType mapLower t = Some r \<and> (\<forall>g. r = Inr g \<longrightarrow> opens t = closes t)"
    if "ascii t" "length t < length ?n" for t
    using that n(2) by (intro less.hyps) simp_all
  show ?case
  proof (cases "mapPattern ?n")
    case (Some p)
    obtain k v where p: "p = (k, v)" by (cases p)
    with Some have m: "mapPattern ?n = Some (k, v)" by simp
    then have shape: "?n = ''map<'' @ k @ '','' @ v @ ''>''"
      by (simp add: mapPattern_iff)
    with n(1) have "ascii k" "ascii v"
      by (simp_all add: ascii_append ascii_Cons)
    moreover have "length k < length ?n" "length v < length ?n"
      by (simp_all add: shape)
    ultimately obtain rk rv where
      rk: "cqlToGoType mapLower k = Some rk" "\<forall>g. rk = Inr g \<longrightarrow> opens k = closes k"
      and rv: "cqlToGoType mapLower v = Some rv" "\<forall>g. rv = Inr g \<longrightarrow> opens v = closes v"
      using sub by metis
    have bal: "opens ?n = closes ?n" if "opens k = closes k" "opens v = closes v"
      using that by (simp add: shape counts)
    show ?thesis
      using rk rv bal n(3,4)
      by (simp add: cqlToGoType_map [OF m] split: sum.splits)
  next
    case None
    note noMap = None
    show ?thesis
    proof (cases "listPattern ?n")
      case (Some e)
      then have shape: "?n = ''list<'' @ e @ ''>''"
        by (simp add: listPattern_def wrapped_iff)
      with n(1) have "ascii e"
        by (simp add: ascii_append ascii_Cons)
      moreover have "length e < length ?n"
        by (simp add: shape)
      ultimately obtain re where
        re: "cqlToGoType mapLower e = Some re" "\<forall>g. re = Inr g \<longrightarrow> opens e = closes e"
        using sub by metis
      have bal: "opens ?n = closes ?n" if "opens e = closes e"
        using that by (simp add: shape counts)
      show ?thesis
        using re bal n(3,4)
        by (simp add: cqlToGoType_list [OF noMap Some] split: sum.splits)
    next
      case None
      note noList = None
      show ?thesis
      proof (cases "setPattern ?n")
        case (Some e)
        then have shape: "?n = ''set<'' @ e @ ''>''"
          by (simp add: setPattern_def wrapped_iff)
        with n(1) have "ascii e"
          by (simp add: ascii_append ascii_Cons)
        moreover have "length e < length ?n"
          by (simp add: shape)
        ultimately obtain re where
          re: "cqlToGoType mapLower e = Some re" "\<forall>g. re = Inr g \<longrightarrow> opens e = closes e"
          using sub by metis
        have bal: "opens ?n = closes ?n" if "opens e = closes e"
          using that by (simp add: shape counts)
        show ?thesis
          using re bal n(3,4)
          by (simp add: cqlToGoType_set [OF noMap noList Some] split: sum.splits)
      next
        case None
        have "opens ?n = closes ?n" if "scalarType ?n = Inr g" for g
          using scalarType_counts [OF that] by simp
        then show ?thesis
          using n(3,4) by (auto simp: cqlToGoType_no_pattern [OF noMap noList None])
      qed
    qed
  qed
qed

lemma unbalanced_fails:
  assumes "ascii s" and "opens s < closes s"
  shows "\<exists>err. cqlToGoType mapLower s = Some (Inl err)"
proof -
  from ascii_returns [OF assms(1), of mapLower] obtain r where
    "cqlToGoType mapLower s = Some r" "\<forall>g. r = Inr g \<longrightarrow> opens s = closes s"
    by blast
  with assms(2) show ?thesis by (cases r) auto
qed

lemma typeString_last: "last (typeString d) \<noteq> CHR '',''"
proof (cases d)
  case (Scalar k)
  then show ?thesis by (cases k) simp_all
qed simp_all

theorem nested_value_fails:
  "\<not> flatValues d \<Longrightarrow> \<exists>err. cqlToGoType mapLower (typeString d) = Some (Inl err)"
proof (induction d)
  case (Scalar k)
  then show ?case by simp
next
  case (List e)
  then show ?case by (simp only: cqlToGoType_list_string) auto
next
  case (Set e)
  then show ?case by (simp only: cqlToGoType_set_string) auto
next
  case (Map k v)
  let ?K = "typeString k" and ?V = "typeString v"
  let ?n = "typeString (Map k v)"
  have asc: "ascii ?n" by (rule plain_ascii [OF plain_typeString])
  have "mapPattern ?n \<noteq> None"
  proof
    assume "mapPattern ?n = None"
    moreover have "wrapped ''map<'' ?n = Some (?K @ '','' @ ?V)"
      using typeString_no_newline by (simp add: wrapped_iff)
    ultimately have "splitBody (?K @ '','' @ ?V) = None"
      by (simp add: mapPattern_def)
    then have "lastComma (butlast (tl (?K @ '','' @ ?V))) = None"
      using typeString_nonempty [of k]
      by (cases ?K) (auto simp: splitBody_def split: option.splits if_splits)
    then have "CHR '','' \<notin> set (butlast (tl (?K @ '','' @ ?V)))"
      by (simp add: lastComma_None_iff)
    moreover have "CHR '','' \<in> set (butlast (tl (?K @ '','' @ ?V)))"
      using typeString_nonempty [of k] typeString_nonempty [of v]
      by (cases ?K) (simp_all add: butlast_append)
    ultimately show False by simp
  qed
  then obtain k' v' where m: "mapPattern ?n = Some (k', v')"
    by (cases "mapPattern ?n") auto
  then have shape: "?n = ''map<'' @ k' @ '','' @ v' @ ''>''"
    and v': "CHR '','' \<notin> set (butlast v')"
    by (simp_all add: mapPattern_iff)
  from shape have eq: "?K @ '','' @ ?V = k' @ '','' @ v'" by simp
  from asc shape have "ascii k'" "ascii v'"
    by (simp_all only: ascii_append ascii_Cons)
  then obtain rk where rk: "cqlToGoType mapLower k' = Some rk"
    using ascii_returns by blast
  from m have m': "mapPattern (ToLower mapLower (TrimSpace ?n)) = Some (k', v')"
    by (simp only: typeString_normalised)
  note run = cqlToGoType_map [OF m']
  have value_fails: ?case if "\<exists>err. cqlToGoType mapLower v' = Some (Inl err)"
    using that rk run by (cases rk) auto
  have "v' \<in> set (afterCommas (?K @ '','' @ ?V))"
    unfolding eq by (rule after_comma_listed)
  then consider
    (key) b where "b \<in> set (afterCommas ?K)" "v' = b @ '','' @ ?V"
    | (sep) "v' = ?V"
    | (val) "v' \<in> set (afterCommas ?V)"
    by (auto simp: afterCommas_append)
  then show ?case
  proof cases
    case key
    with typeString_after_comma [of b k] typeString_balanced [of v]
    have "opens v' < closes v'" by (simp add: counts)
    with \<open>ascii v'\<close> show ?thesis
      by (intro value_fails unbalanced_fails)
  next
    case val
    then have "opens v' < closes v'" by (rule typeString_after_comma)
    with \<open>ascii v'\<close> show ?thesis
      by (intro value_fails unbalanced_fails)
  next
    case sep
    with eq have k': "k' = ?K" by simp
    have "\<not> hasMap v"
    proof
      assume "hasMap v"
      then have "CHR '','' \<in> set ?V" by (simp add: typeString_comma)
      moreover have "?V = butlast ?V @ [last ?V]"
        using typeString_nonempty by simp
      ultimately have "CHR '','' \<in> set (butlast ?V) \<or> last ?V = CHR '',''"
        by (metis in_set_butlast_appendI insert_iff list.set(2) set_append Un_iff empty_iff empty_set)
      with v' sep typeString_last [of v] show False by simp
    qed
    with Map.prems have "\<not> flatValues k \<or> \<not> flatValues v" by simp
    then show ?thesis
    proof
      assume "\<not> flatValues k"
      with Map.IH(1) k' run show ?thesis by auto
    next
      assume "\<not> flatValues v"
      with Map.IH(2) sep show ?thesis by (intro value_fails) simp
    qed
  qed
qed

section \<open>Claims\<close>

text \<open>
  C1. The claim: the separating comma of a map is found by tracking the nesting of angle
  brackets, so that \<open>map<text, map<int, int>>\<close> is a map from text to a map from int to
  int. In the code the first group of the map pattern is greedy and ends at the last
  comma of the body: the key is \<open>text, map<int\<close>, which matches no rule, and the
  mapper returns the unknown-type error for it.
\<close>

theorem nested_map_value_unknown:
  "cqlToGoType mapLower ''map<text, map<int, int>>''
     = Some (Inl (UnknownCQLType ''text, map<int''))"
  by code_simp

text \<open>
  C9. Every token that is \<open>varchar\<close> after trimming white space and lower-casing maps
  to the Go type \<open>string\<close>, the result for \<open>text\<close>.
\<close>

theorem varchar_is_text:
  assumes "ToLower mapLower (TrimSpace raw) = ''varchar''"
  shows "cqlToGoType mapLower raw = Some (Inr ''string'')
     \<and> cqlToGoType mapLower raw = cqlToGoType mapLower ''text''"
proof -
  have "CHR ''>'' \<notin> set (ToLower mapLower (TrimSpace raw))"
    by (simp add: assms)
  then have "cqlToGoType mapLower raw = Some (scalarType ''varchar'')"
    using assms cqlToGoType_scalar by metis
  moreover have "scalarType ''varchar'' = Inr ''string''"
    by (simp add: scalarType_def)
  moreover have "cqlToGoType mapLower ''text'' = Some (Inr ''string'')"
    by code_simp
  ultimately show ?thesis by simp
qed

theorem varchar_is_text_witness:
  "ToLower id (TrimSpace ([CHR 0xC2, CHR 0xA0] @ '' VarChar'' @ [CHR 0x09])) = ''varchar''
   \<and> cqlToGoType id ([CHR 0xC2, CHR 0xA0] @ '' VarChar'' @ [CHR 0x09]) = Some (Inr ''string'')
   \<and> cqlToGoType id ([CHR 0xC2, CHR 0xA0] @ '' VarChar'' @ [CHR 0x09])
       = cqlToGoType id ''text''"
proof -
  have h: "ToLower id (TrimSpace ([CHR 0xC2, CHR 0xA0] @ '' VarChar'' @ [CHR 0x09]))
      = ''varchar''"
    by code_simp
  from varchar_is_text [OF h] h show ?thesis by blast
qed

text \<open>
  C10. The token \<open>time.uuid\<close> is the UUID scalar and renders as \<open>gocql.UUID\<close>; the
  token \<open>timeuuid\<close> matches no rule and gives the unknown-type error.
\<close>

theorem time_uuid_tokens:
  "cqlToGoType mapLower ''time.uuid'' = Some (Inr ''gocql.UUID'')
   \<and> cqlToGoType mapLower ''timeuuid'' = Some (Inl (UnknownCQLType ''timeuuid''))"
  by code_simp

text \<open>
  C3. The claim: every case and white-space variant of a name in the fixed scalar set maps
  to its scalar, and every token outside the set fails with the unknown-type error. The
  second half fails on the code: \<open>varchar\<close> is outside the set and maps to \<open>string\<close>.
\<close>

theorem varchar_outside_scalar_set:
  "''varchar'' \<notin> set scalarNames \<and> cqlToGoType id ''varchar'' = Some (Inr ''string'')"
  by code_simp

text \<open>
  C3, as amended. A token that trimming white space and lower-casing turn into a name of
  the fixed scalar set maps to the Go type of that kind, whatever its case and the white
  space around it. A token that matches none of the three collection patterns, and that
  after trimming and lower-casing is neither in the set nor \<open>varchar\<close> nor \<open>time.uuid\<close>,
  fails with the unknown-type error for the normalised token; there is no default type.
\<close>

theorem scalar_tokens:
  "(ToLower mapLower (TrimSpace raw) = kindName k
      \<longrightarrow> cqlToGoType mapLower raw = Some (Inr (kindGo k)))
   \<and> (mapPattern (ToLower mapLower (TrimSpace raw)) = None
        \<and> listPattern (ToLower mapLower (TrimSpace raw)) = None
        \<and> setPattern (ToLower mapLower (TrimSpace raw)) = None
        \<and> ToLower mapLower (TrimSpace raw) \<notin> set scalarNames
        \<and> ToLower mapLower (TrimSpace raw) \<noteq> ''varchar''
        \<and> ToLower mapLower (TrimSpace raw) \<noteq> ''time.uuid''
      \<longrightarrow> cqlToGoType mapLower raw
            = Some (Inl (UnknownCQLType (ToLower mapLower (TrimSpace raw)))))"
proof (intro conjI impI)
  assume n: "ToLower mapLower (TrimSpace raw) = kindName k"
  then have "cqlToGoType mapLower raw = Some (scalarType (kindName k))"
    using cqlToGoType_scalar [of mapLower raw] kindName_no_closing [of k] by simp
  then show "cqlToGoType mapLower raw = Some (Inr (kindGo k))"
    by (simp add: scalarType_kind)
next
  assume b: "mapPattern (ToLower mapLower (TrimSpace raw)) = None
        \<and> listPattern (ToLower mapLower (TrimSpace raw)) = None
        \<and> setPattern (ToLower mapLower (TrimSpace raw)) = None
        \<and> ToLower mapLower (TrimSpace raw) \<notin> set scalarNames
        \<and> ToLower mapLower (TrimSpace raw) \<noteq> ''varchar''
        \<and> ToLower mapLower (TrimSpace raw) \<noteq> ''time.uuid''"
  then have "cqlToGoType mapLower raw = Some (scalarType (ToLower mapLower (TrimSpace raw)))"
    by (intro cqlToGoType_no_pattern) auto
  with b show "cqlToGoType mapLower raw
      = Some (Inl (UnknownCQLType (ToLower mapLower (TrimSpace raw))))"
    by (simp add: scalarType_unknown)
qed

theorem scalar_tokens_witness:
  "ToLower id (TrimSpace ([CHR 0xE2, CHR 0x80, CHR 0x83] @ '' BigInt'' @ [CHR 0xC2, CHR 0x85, CHR 0x0A]))
     = kindName Int64
   \<and> cqlToGoType id ([CHR 0xE2, CHR 0x80, CHR 0x83] @ '' BigInt'' @ [CHR 0xC2, CHR 0x85, CHR 0x0A])
       = Some (Inr (kindGo Int64))
   \<and> (mapPattern (ToLower id (TrimSpace ''Frozen<int>'')) = None
        \<and> listPattern (ToLower id (TrimSpace ''Frozen<int>'')) = None
        \<and> setPattern (ToLower id (TrimSpace ''Frozen<int>'')) = None
        \<and> ToLower id (TrimSpace ''Frozen<int>'') \<notin> set scalarNames
        \<and> ToLower id (TrimSpace ''Frozen<int>'') \<noteq> ''varchar''
        \<and> ToLower id (TrimSpace ''Frozen<int>'') \<noteq> ''time.uuid'')
   \<and> cqlToGoType id ''Frozen<int>''
       = Some (Inl (UnknownCQLType (ToLower id (TrimSpace ''Frozen<int>''))))"
proof -
  have w1: "ToLower id (TrimSpace ([CHR 0xE2, CHR 0x80, CHR 0x83] @ '' BigInt''
      @ [CHR 0xC2, CHR 0x85, CHR 0x0A])) = kindName Int64"
    by code_simp
  have w2: "mapPattern (ToLower id (TrimSpace ''Frozen<int>'')) = None
        \<and> listPattern (ToLower id (TrimSpace ''Frozen<int>'')) = None
        \<and> setPattern (ToLower id (TrimSpace ''Frozen<int>'')) = None
        \<and> ToLower id (TrimSpace ''Frozen<int>'') \<notin> set scalarNames
        \<and> ToLower id (TrimSpace ''Frozen<int>'') \<noteq> ''varchar''
        \<and> ToLower id (TrimSpace ''Frozen<int>'') \<noteq> ''time.uuid''"
    by code_simp
  from scalar_tokens [where mapLower = id and k = Int64 and raw = "[CHR 0xE2, CHR 0x80, CHR 0x83]
      @ '' BigInt'' @ [CHR 0xC2, CHR 0x85, CHR 0x0A]"] w1
  have c1: "cqlToGoType id ([CHR 0xE2, CHR 0x80, CHR 0x83] @ '' BigInt''
      @ [CHR 0xC2, CHR 0x85, CHR 0x0A]) = Some (Inr (kindGo Int64))"
    by blast
  from scalar_tokens [where mapLower = id and raw = "''Frozen<int>''"] w2
  have c2: "cqlToGoType id ''Frozen<int>''
       = Some (Inl (UnknownCQLType (ToLower id (TrimSpace ''Frozen<int>''))))"
    by blast
  show ?thesis
    by (rule conjI [OF w1 conjI [OF c1 conjI [OF w2 c2]]])
qed

text \<open>
  C4. Whatever the casing function is, a generated struct is its header, one line per
  column in the order of the columns, and the closing brace; the line of a column ends
  with the tag \<open>json:\<close> followed by the column name between double quotes, exactly as
  the catalog gave it.
\<close>

theorem tag_is_column_name:
  assumes "generateGoStruct mapLower camel tableName columns = Some (Inr structDefinition)"
  shows "\<exists>name goTypes. length goTypes = length columns
     \<and> structDefinition = ''type '' @ name @ '' struct {'' @ [CHR 0x0A]
         @ concat (map2 (\<lambda>(column, cqlType) goType.
              ''    '' @ camel column @ '' '' @ goType
                @ '' `json:'' @ [CHR 0x22] @ column @ [CHR 0x22] @ ''`'' @ [CHR 0x0A])
            columns goTypes)
         @ ''}'' @ [CHR 0x0A]"
proof -
  from generateGoStruct_Inr [OF assms] obtain name gos where
    gos: "list_all2 (\<lambda>col g. cqlToGoType mapLower (snd col) = Some (Inr g)) columns gos"
    and s: "structDefinition = ''type '' @ name @ '' struct {'' @ [CHR 0x0A]
              @ concat (map2 (\<lambda>col g. fieldLine camel (fst col) g) columns gos)
              @ ''}'' @ [CHR 0x0A]"
    by blast
  have "map2 (\<lambda>col g. fieldLine camel (fst col) g) columns gos =
      map2 (\<lambda>(column, cqlType) goType.
              ''    '' @ camel column @ '' '' @ goType
                @ '' `json:'' @ [CHR 0x22] @ column @ [CHR 0x22] @ ''`'' @ [CHR 0x0A])
        columns gos"
    by (rule map_cong) (auto simp: fieldLine_def)
  with s have "structDefinition = ''type '' @ name @ '' struct {'' @ [CHR 0x0A]
         @ concat (map2 (\<lambda>(column, cqlType) goType.
              ''    '' @ camel column @ '' '' @ goType
                @ '' `json:'' @ [CHR 0x22] @ column @ [CHR 0x22] @ ''`'' @ [CHR 0x0A])
            columns gos)
         @ ''}'' @ [CHR 0x0A]"
    by (simp only:)
  moreover have "length gos = length columns"
    using list_all2_lengthD [OF gos] by simp
  ultimately show ?thesis by blast
qed

theorem tag_is_column_name_witness:
  "generateGoStruct id sampleCasing ''users''
      [(''user_id'', ''UUID'')]
    = Some (Inr (''type Users struct {'' @ [CHR 0x0A]
         @ ''    UserId gocql.UUID `json:'' @ [CHR 0x22] @ ''user_id'' @ [CHR 0x22] @ ''`''
         @ [CHR 0x0A] @ ''}'' @ [CHR 0x0A]))
   \<and> (\<exists>name goTypes. length goTypes = length [(''user_id'', ''UUID'')]
     \<and> ''type Users struct {'' @ [CHR 0x0A]
         @ ''    UserId gocql.UUID `json:'' @ [CHR 0x22] @ ''user_id'' @ [CHR 0x22] @ ''`''
         @ [CHR 0x0A] @ ''}'' @ [CHR 0x0A] = ''type '' @ name @ '' struct {'' @ [CHR 0x0A]
         @ concat (map2 (\<lambda>(column, cqlType) goType.
              ''    '' @ sampleCasing column
                @ '' '' @ goType
                @ '' `json:'' @ [CHR 0x22] @ column @ [CHR 0x22] @ ''`'' @ [CHR 0x0A])
            [(''user_id'', ''UUID'')] goTypes)
         @ ''}'' @ [CHR 0x0A])"
proof -
  have h: "generateGoStruct id sampleCasing ''users''
      [(''user_id'', ''UUID'')]
    = Some (Inr (''type Users struct {'' @ [CHR 0x0A]
         @ ''    UserId gocql.UUID `json:'' @ [CHR 0x22] @ ''user_id'' @ [CHR 0x22] @ ''`''
         @ [CHR 0x0A] @ ''}'' @ [CHR 0x0A]))"
    by code_simp
  from tag_is_column_name [OF h] h show ?thesis by blast
qed

text \<open>
  C5. The claim: two generations over the same column set give the fields in the same
  order. The columns are a Go map, and the fields come in the order in which \<open>range\<close>
  visits it: the two visiting orders of a map with two columns give different texts.
\<close>

theorem field_order_depends_on_visit_order:
  "mset [(''id'', ''uuid''), (''name'', ''text'')] = mset [(''name'', ''text''), (''id'', ''uuid'')]
   \<and> generateGoStruct id sampleCasing ''users'' [(''id'', ''uuid''), (''name'', ''text'')]
       \<noteq> generateGoStruct id sampleCasing ''users'' [(''name'', ''text''), (''id'', ''uuid'')]"
proof
  show "mset [(''id'', ''uuid''), (''name'', ''text'')] = mset [(''name'', ''text''), (''id'', ''uuid'')]"
    by simp
  show "generateGoStruct id sampleCasing ''users'' [(''id'', ''uuid''), (''name'', ''text'')]
       \<noteq> generateGoStruct id sampleCasing ''users'' [(''name'', ''text''), (''id'', ''uuid'')]"
    by code_simp
qed

text \<open>
  C5, as amended. The fields of a struct come in the order in which the loop visits the
  column map. When generation succeeds for one visiting order of a map, it succeeds for
  every other one, with the same struct name and the same field lines as a multiset;
  only their order can differ.
\<close>

theorem field_order_follows_visit_order:
  assumes "mset columns = mset columns'"
    and "generateGoStruct mapLower camel tableName columns = Some (Inr structDefinition)"
  shows "\<exists>name goTypes goTypes'.
      list_all2 (\<lambda>col goType. cqlToGoType mapLower (snd col) = Some (Inr goType)) columns goTypes
    \<and> list_all2 (\<lambda>col goType. cqlToGoType mapLower (snd col) = Some (Inr goType))
        columns' goTypes'
    \<and> structDefinition = ''type '' @ name @ '' struct {'' @ [CHR 0x0A]
          @ concat (map2 (\<lambda>col goType. fieldLine camel (fst col) goType) columns goTypes)
          @ ''}'' @ [CHR 0x0A]
    \<and> generateGoStruct mapLower camel tableName columns' =
        Some (Inr (''type '' @ name @ '' struct {'' @ [CHR 0x0A]
          @ concat (map2 (\<lambda>col goType. fieldLine camel (fst col) goType) columns' goTypes')
          @ ''}'' @ [CHR 0x0A]))
    \<and> mset (map2 (\<lambda>col goType. fieldLine camel (fst col) goType) columns goTypes)
        = mset (map2 (\<lambda>col goType. fieldLine camel (fst col) goType) columns' goTypes')"
proof -
  let ?g = "\<lambda>col. projr (the (cqlToGoType mapLower (snd col)))"
  let ?line = "\<lambda>col. fieldLine camel (fst col) (?g col)"
  from generateGoStruct_Inr [OF assms(2)] obtain name gos where
    name: "toPascal camel tableName = Inr name"
    and gos: "list_all2 (\<lambda>col g. cqlToGoType mapLower (snd col) = Some (Inr g)) columns gos"
    and s: "structDefinition = ''type '' @ name @ '' struct {'' @ [CHR 0x0A]
              @ concat (map2 (\<lambda>col g. fieldLine camel (fst col) g) columns gos)
              @ ''}'' @ [CHR 0x0A]"
    by blast
  have gos_eq: "gos = map ?g columns"
    using gos by (induction rule: list_all2_induct) auto
  have "list_all (\<lambda>col. cqlToGoType mapLower (snd col) = Some (Inr (?g col))) columns"
    using gos by (induction rule: list_all2_induct) auto
  then have "\<forall>col \<in> set columns'. cqlToGoType mapLower (snd col) = Some (Inr (?g col))"
    using mset_eq_setD [OF assms(1)] by (simp add: list_all_iff)
  then have gos': "list_all2 (\<lambda>col g. cqlToGoType mapLower (snd col) = Some (Inr g))
      columns' (map ?g columns')"
    by (induction columns') auto
  have lines: "map2 (\<lambda>col g. fieldLine camel (fst col) g) cs (map ?g cs) = map ?line cs" for cs
    by (induction cs) auto
  have "image_mset ?line (mset columns) = image_mset ?line (mset columns')"
    by (simp only: assms(1))
  then have "mset (map ?line columns) = mset (map ?line columns')"
    by (simp only: mset_map)
  then have perm: "mset (map2 (\<lambda>col g. fieldLine camel (fst col) g) columns gos)
        = mset (map2 (\<lambda>col g. fieldLine camel (fst col) g) columns' (map ?g columns'))"
    by (simp only: gos_eq lines)
  show ?thesis
  proof (intro exI conjI)
    show "list_all2 (\<lambda>col g. cqlToGoType mapLower (snd col) = Some (Inr g)) columns gos"
      by (rule gos)
    show "list_all2 (\<lambda>col g. cqlToGoType mapLower (snd col) = Some (Inr g))
        columns' (map ?g columns')"
      by (rule gos')
    show "structDefinition = ''type '' @ name @ '' struct {'' @ [CHR 0x0A]
              @ concat (map2 (\<lambda>col g. fieldLine camel (fst col) g) columns gos)
              @ ''}'' @ [CHR 0x0A]"
      by (rule s)
    show "generateGoStruct mapLower camel tableName columns' =
        Some (Inr (''type '' @ name @ '' struct {'' @ [CHR 0x0A]
          @ concat (map2 (\<lambda>col g. fieldLine camel (fst col) g) columns' (map ?g columns'))
          @ ''}'' @ [CHR 0x0A]))"
      by (rule generateGoStruct_ok [OF name gos'])
    show "mset (map2 (\<lambda>col g. fieldLine camel (fst col) g) columns gos)
        = mset (map2 (\<lambda>col g. fieldLine camel (fst col) g) columns' (map ?g columns'))"
      by (rule perm)
  qed
qed

theorem field_order_follows_visit_order_witness:
  "mset [(''id'', ''uuid''), (''name'', ''text'')] = mset [(''name'', ''text''), (''id'', ''uuid'')]
   \<and> generateGoStruct id sampleCasing ''users'' [(''id'', ''uuid''), (''name'', ''text'')]
       = Some (Inr (''type Users struct {'' @ [CHR 0x0A]
           @ fieldLine sampleCasing ''id'' ''gocql.UUID''
           @ fieldLine sampleCasing ''name'' ''string'' @ ''}'' @ [CHR 0x0A]))
   \<and> (\<exists>s. generateGoStruct id sampleCasing ''users'' [(''name'', ''text''), (''id'', ''uuid'')]
           = Some (Inr s))"
proof -
  have h1: "mset [(''id'', ''uuid''), (''name'', ''text'')]
      = mset [(''name'', ''text''), (''id'', ''uuid'')]"
    by simp
  have h2: "generateGoStruct id sampleCasing ''users'' [(''id'', ''uuid''), (''name'', ''text'')]
       = Some (Inr (''type Users struct {'' @ [CHR 0x0A]
           @ fieldLine sampleCasing ''id'' ''gocql.UUID''
           @ fieldLine sampleCasing ''name'' ''string'' @ ''}'' @ [CHR 0x0A]))"
    by code_simp
  from field_order_follows_visit_order [OF h1 h2]
  have "\<exists>s. generateGoStruct id sampleCasing ''users'' [(''name'', ''text''), (''id'', ''uuid'')]
           = Some (Inr s)"
    by (elim exE conjE) (rule exI)
  with h1 h2 show ?thesis by (intro conjI)
qed

text \<open>
  C6. The claim: when two columns get the same identifier, assembly fails with an
  identifier conflict. The code compares no identifiers: for the columns \<open>user_id\<close> and
  \<open>userId\<close>, both cased to \<open>UserId\<close>, it returns a struct with two fields of that name.
\<close>

theorem equal_identifiers_no_conflict:
  "sampleCasing ''user_id'' = sampleCasing ''userId''
   \<and> generateGoStruct id sampleCasing ''users'' [(''user_id'', ''uuid''), (''userId'', ''text'')]
      = Some (Inr (''type Users struct {'' @ [CHR 0x0A]
          @ ''    UserId gocql.UUID `json:'' @ [CHR 0x22] @ ''user_id'' @ [CHR 0x22] @ ''`''
          @ [CHR 0x0A]
          @ ''    UserId string `json:'' @ [CHR 0x22] @ ''userId'' @ [CHR 0x22] @ ''`''
          @ [CHR 0x0A]
          @ ''}'' @ [CHR 0x0A]))"
  by code_simp

text \<open>
  C6, as amended. Whether or not two columns get the same identifier, assembly succeeds
  when the cased table name is not empty and every column type maps: the struct has one
  field line for each column, in the order visited, each with the column's own tag. No
  field is dropped and none overwrites another.
\<close>

theorem equal_identifiers_both_emitted:
  assumes "toPascal camel tableName = Inr name"
    and "list_all2 (\<lambda>col goType. cqlToGoType mapLower (snd col) = Some (Inr goType))
       columns goTypes"
  shows "generateGoStruct mapLower camel tableName columns =
     Some (Inr (''type '' @ name @ '' struct {'' @ [CHR 0x0A]
          @ concat (map2 (\<lambda>col goType. fieldLine camel (fst col) goType) columns goTypes)
          @ ''}'' @ [CHR 0x0A]))"
  using assms by (rule generateGoStruct_ok)

theorem equal_identifiers_both_emitted_witness:
  "toPascal sampleCasing ''users'' = Inr ''Users''
   \<and> list_all2 (\<lambda>col goType. cqlToGoType id (snd col) = Some (Inr goType))
        [(''user_id'', ''uuid''), (''userId'', ''text'')] [''gocql.UUID'', ''string'']
   \<and> generateGoStruct id sampleCasing ''users'' [(''user_id'', ''uuid''), (''userId'', ''text'')] =
     Some (Inr (''type '' @ ''Users'' @ '' struct {'' @ [CHR 0x0A]
          @ concat (map2 (\<lambda>col goType. fieldLine sampleCasing (fst col) goType)
              [(''user_id'', ''uuid''), (''userId'', ''text'')] [''gocql.UUID'', ''string''])
          @ ''}'' @ [CHR 0x0A]))"
proof -
  have h1: "toPascal sampleCasing ''users'' = Inr ''Users''"
    by code_simp
  have h2: "list_all2 (\<lambda>col goType. cqlToGoType id (snd col) = Some (Inr goType))
        [(''user_id'', ''uuid''), (''userId'', ''text'')] [''gocql.UUID'', ''string'']"
    by code_simp
  from equal_identifiers_both_emitted [OF h1 h2] h1 h2 show ?thesis
    by (intro conjI)
qed

text \<open>
  C7. The claim: the identifier transform never returns the empty string and prepends a
  fixed prefix when the result would start with a non-letter. The code has no prefix:
  \<open>strcase.ToCamel\<close> turns \<open>1st\<close> into \<open>1St\<close>, and \<open>toPascal\<close> returns it as it is,
  starting with a digit.
\<close>

theorem toPascal_keeps_leading_digit:
  "toPascal sampleCasing ''1st'' = Inr ''1St''"
  by code_simp

text \<open>
  C7, as amended. For every name whose cased form is not empty, \<open>toPascal\<close> returns a
  non-empty name: the cased form with its first byte upper-cased. Nothing is prepended:
  a cased form that starts with a byte below \<open>a\<close> (a digit, an upper-case letter,
  punctuation) is returned unchanged. The identifier of a field is the cased
  column name as the casing function returns it.
\<close>

theorem toPascal_result:
  assumes "camel v = c # cs"
  shows "toPascal camel v = Inr (runeToString (unicodeToUpper (of_char c)) @ cs)
     \<and> runeToString (unicodeToUpper (of_char c)) @ cs \<noteq> []
     \<and> ((of_char c :: nat) < 97 \<longrightarrow> toPascal camel v = Inr (camel v))
     \<and> fieldLine camel column goType =
         ''    '' @ camel column @ '' '' @ goType
           @ '' `json:'' @ [CHR 0x22] @ column @ [CHR 0x22] @ ''`'' @ [CHR 0x0A]"
proof (intro conjI impI)
  show r: "toPascal camel v = Inr (runeToString (unicodeToUpper (of_char c)) @ cs)"
    by (simp add: toPascal_def assms)
  show "runeToString (unicodeToUpper (of_char c)) @ cs \<noteq> []"
    by (simp add: runeToString_nonempty)
  show "toPascal camel v = Inr (camel v)" if "(of_char c :: nat) < 97"
  proof -
    from that have "runeToString (unicodeToUpper (of_char c)) = [c]"
      by (simp add: unicodeToUpper_below_a runeToString_def)
    with r assms show ?thesis by simp
  qed
  show "fieldLine camel column goType =
         ''    '' @ camel column @ '' '' @ goType
           @ '' `json:'' @ [CHR 0x22] @ column @ [CHR 0x22] @ ''`'' @ [CHR 0x0A]"
    by (simp add: fieldLine_def)
qed

theorem toPascal_result_witness:
  "sampleCasing ''1st'' = CHR ''1'' # ''St''
   \<and> (of_char (CHR ''1'') :: nat) < 97
   \<and> toPascal sampleCasing ''1st'' = Inr (sampleCasing ''1st'')
   \<and> sampleCasing ''users'' = CHR ''U'' # ''sers''
   \<and> toPascal sampleCasing ''users'' = Inr ''Users''"
proof -
  have h: "sampleCasing ''1st'' = CHR ''1'' # ''St''"
    by code_simp
  have l: "(of_char (CHR ''1'') :: nat) < 97"
    by code_simp
  have h': "sampleCasing ''users'' = CHR ''U'' # ''sers''"
    by code_simp
  have e: "runeToString (unicodeToUpper (of_char (CHR ''U''))) @ ''sers'' = ''Users''"
    by code_simp
  from toPascal_result [where camel = sampleCasing and v = "''1st''", OF h] l have "toPascal sampleCasing ''1st'' = Inr (sampleCasing ''1st'')"
    by blast
  moreover from toPascal_result [where camel = sampleCasing and v = "''users''", OF h'] e have "toPascal sampleCasing ''users'' = Inr ''Users''"
    by simp
  ultimately show ?thesis using h l h' by (intro conjI)
qed

text \<open>
  C2. The claim: a table with a column of unmapped type is skipped and its sibling tables
  are still generated. In the code main panics on the error of \<open>generateGoStruct\<close>: with
  a table \<open>events\<close> that has a column of type \<open>inet\<close>, the loop ends in the panic and the
  table \<open>users\<close> after it is never generated.
\<close>

theorem unmapped_type_aborts_siblings:
  "mainLoop id sampleCasing
     (catalog [(''events'', [(''addr'', ''inet'')]), (''users'', [(''id'', ''uuid'')])])
     [''events'', ''users''] ([], []) = Some (Inl (UnknownCQLType ''inet''))"
  by code_simp

text \<open>
  C2, as amended. For a table whose cased name is not empty, \<open>generateGoStruct\<close> returns
  the unknown-type error of the first column visited whose type has no mapping. At the
  first table whose columns are fetched and for which \<open>generateGoStruct\<close> returns an
  error, main panics with exactly that error, whatever tables follow: the run aborts and
  no struct definition is produced. A table is skipped only when fetching its columns
  fails, and one line with its name and the fetch error is logged for it: when
  generation succeeds for every fetched table, the loop ends with the definitions of
  exactly the fetched tables, in the order of the table names, and with the log
  extended by exactly the lines of the tables that were not fetched.
\<close>

theorem generate_error_panics_fetch_error_skips:
  "(toPascal camel tableName = Inr name
      \<and> list_all2 (\<lambda>col goType. cqlToGoType mapLower (snd col) = Some (Inr goType))
          mapped goTypes
      \<and> cqlToGoType mapLower cqlType = Some (Inl err)
      \<longrightarrow> generateGoStruct mapLower camel tableName (mapped @ (column, cqlType) # others)
            = Some (Inl err))
   \<and> (allGenerate mapLower camel fetchColumnDefinitions before
      \<and> fetchColumnDefinitions t = Inr columns
      \<and> generateGoStruct mapLower camel t columns = Some (Inl err')
      \<longrightarrow> mainLoop mapLower camel fetchColumnDefinitions (before @ t # after) (logged, defs)
            = Some (Inl err'))
   \<and> (allGenerate mapLower camel fetchColumnDefinitions tableNames
      \<longrightarrow> mainLoop mapLower camel fetchColumnDefinitions tableNames (logged, defs)
            = Some (Inr (logged @ loggedFor fetchColumnDefinitions tableNames,
                 defs @ generatedFor mapLower camel fetchColumnDefinitions tableNames)))"
proof (intro conjI impI)
  assume a: "toPascal camel tableName = Inr name
      \<and> list_all2 (\<lambda>col goType. cqlToGoType mapLower (snd col) = Some (Inr goType))
          mapped goTypes
      \<and> cqlToGoType mapLower cqlType = Some (Inl err)"
  then have "structFields mapLower camel (''type '' @ name @ '' struct {'' @ [CHR 0x0A])
      (mapped @ (column, cqlType) # others) = Some (Inl err)"
    by (intro structFields_first_error [where gos = goTypes]) simp_all
  with a show "generateGoStruct mapLower camel tableName (mapped @ (column, cqlType) # others)
      = Some (Inl err)"
    by (simp add: generateGoStruct_def)
next
  assume b: "allGenerate mapLower camel fetchColumnDefinitions before
      \<and> fetchColumnDefinitions t = Inr columns
      \<and> generateGoStruct mapLower camel t columns = Some (Inl err')"
  then have "mainLoop mapLower camel fetchColumnDefinitions (before @ t # after) (logged, defs)
      = mainLoop mapLower camel fetchColumnDefinitions (t # after)
          (logged @ loggedFor fetchColumnDefinitions before,
           defs @ generatedFor mapLower camel fetchColumnDefinitions before)"
    by (intro mainLoop_passes) simp
  with b show "mainLoop mapLower camel fetchColumnDefinitions (before @ t # after) (logged, defs)
      = Some (Inl err')"
    by simp
next
  assume "allGenerate mapLower camel fetchColumnDefinitions tableNames"
  from mainLoop_passes [OF this, where rest = "[]" and logged = logged and defs = defs]
  show "mainLoop mapLower camel fetchColumnDefinitions tableNames (logged, defs)
      = Some (Inr (logged @ loggedFor fetchColumnDefinitions tableNames,
           defs @ generatedFor mapLower camel fetchColumnDefinitions tableNames))"
    by simp
qed

theorem generate_error_panics_fetch_error_skips_witness:
  "(toPascal sampleCasing ''events'' = Inr ''Events''
      \<and> list_all2 (\<lambda>col goType. cqlToGoType id (snd col) = Some (Inr goType))
          [(''id'', ''uuid'')] [''gocql.UUID'']
      \<and> cqlToGoType id ''inet'' = Some (Inl (UnknownCQLType ''inet'')))
   \<and> generateGoStruct id sampleCasing ''events''
        ([(''id'', ''uuid'')] @ (''addr'', ''inet'') # [(''name'', ''text'')])
       = Some (Inl (UnknownCQLType ''inet''))
   \<and> (allGenerate id sampleCasing
          (catalog [(''events'', [(''addr'', ''inet'')]), (''users'', [(''id'', ''uuid'')])])
          [''orders'', ''users'']
      \<and> catalog [(''events'', [(''addr'', ''inet'')]), (''users'', [(''id'', ''uuid'')])]
            ''events'' = Inr [(''addr'', ''inet'')]
      \<and> generateGoStruct id sampleCasing ''events'' [(''addr'', ''inet'')]
          = Some (Inl (UnknownCQLType ''inet'')))
   \<and> mainLoop id sampleCasing
        (catalog [(''events'', [(''addr'', ''inet'')]), (''users'', [(''id'', ''uuid'')])])
        ([''orders'', ''users''] @ ''events'' # [''users'']) ([], [])
       = Some (Inl (UnknownCQLType ''inet''))
   \<and> allGenerate id sampleCasing (catalog [(''users'', [(''id'', ''uuid'')])])
        [''events'', ''users'']
   \<and> mainLoop id sampleCasing (catalog [(''users'', [(''id'', ''uuid'')])])
        [''events'', ''users''] ([], [])
       = Some (Inr ([''Error fetching column definitions for table events: unavailable''],
            [''type Users struct {'' @ [CHR 0x0A] @ fieldLine sampleCasing ''id'' ''gocql.UUID''
               @ ''}'' @ [CHR 0x0A]]))"
proof -
  have w1: "toPascal sampleCasing ''events'' = Inr ''Events''
      \<and> list_all2 (\<lambda>col goType. cqlToGoType id (snd col) = Some (Inr goType))
          [(''id'', ''uuid'')] [''gocql.UUID'']
      \<and> cqlToGoType id ''inet'' = Some (Inl (UnknownCQLType ''inet''))"
    by code_simp
  have w2: "allGenerate id sampleCasing
          (catalog [(''events'', [(''addr'', ''inet'')]), (''users'', [(''id'', ''uuid'')])])
          [''orders'', ''users'']
      \<and> catalog [(''events'', [(''addr'', ''inet'')]), (''users'', [(''id'', ''uuid'')])]
            ''events'' = Inr [(''addr'', ''inet'')]
      \<and> generateGoStruct id sampleCasing ''events'' [(''addr'', ''inet'')]
          = Some (Inl (UnknownCQLType ''inet''))"
    by code_simp
  have w3: "allGenerate id sampleCasing (catalog [(''users'', [(''id'', ''uuid'')])])
        [''events'', ''users'']"
    by code_simp
  have e3: "([] @ loggedFor (catalog [(''users'', [(''id'', ''uuid'')])]) [''events'', ''users''],
      [] @ generatedFor id sampleCasing (catalog [(''users'', [(''id'', ''uuid'')])])
        [''events'', ''users''])
     = ([''Error fetching column definitions for table events: unavailable''],
        [''type Users struct {'' @ [CHR 0x0A] @ fieldLine sampleCasing ''id'' ''gocql.UUID''
           @ ''}'' @ [CHR 0x0A]])"
    by code_simp
  note a = generate_error_panics_fetch_error_skips
    [where camel = sampleCasing and mapLower = id and tableName = "''events''"
      and name = "''Events''" and mapped = "[(''id'', ''uuid'')]"
      and goTypes = "[''gocql.UUID'']" and cqlType = "''inet''"
      and err = "UnknownCQLType ''inet''" and column = "''addr''"
      and others = "[(''name'', ''text'')]"
      and fetchColumnDefinitions =
        "catalog [(''events'', [(''addr'', ''inet'')]), (''users'', [(''id'', ''uuid'')])]"
      and before = "[''orders'', ''users'']" and t = "''events''"
      and columns = "[(''addr'', ''inet'')]" and err' = "UnknownCQLType ''inet''"
      and after = "[''users'']" and logged = "[]" and defs = "[]"]
  note b = generate_error_panics_fetch_error_skips
    [where camel = sampleCasing and mapLower = id
      and fetchColumnDefinitions = "catalog [(''users'', [(''id'', ''uuid'')])]"
      and tableNames = "[''events'', ''users'']" and logged = "[]" and defs = "[]"]
  from a w1 have c1: "generateGoStruct id sampleCasing ''events''
        ([(''id'', ''uuid'')] @ (''addr'', ''inet'') # [(''name'', ''text'')])
       = Some (Inl (UnknownCQLType ''inet''))"
    by blast
  from a w2 have c2: "mainLoop id sampleCasing
        (catalog [(''events'', [(''addr'', ''inet'')]), (''users'', [(''id'', ''uuid'')])])
        ([''orders'', ''users''] @ ''events'' # [''users'']) ([], [])
       = Some (Inl (UnknownCQLType ''inet''))"
    by blast
  from b w3 have "mainLoop id sampleCasing (catalog [(''users'', [(''id'', ''uuid'')])])
        [''events'', ''users''] ([], [])
       = Some (Inr ([] @ loggedFor (catalog [(''users'', [(''id'', ''uuid'')])])
              [''events'', ''users''],
            [] @ generatedFor id sampleCasing (catalog [(''users'', [(''id'', ''uuid'')])])
              [''events'', ''users'']))"
    by blast
  then have c3: "mainLoop id sampleCasing (catalog [(''users'', [(''id'', ''uuid'')])])
        [''events'', ''users''] ([], [])
       = Some (Inr ([''Error fetching column definitions for table events: unavailable''],
            [''type Users struct {'' @ [CHR 0x0A] @ fieldLine sampleCasing ''id'' ''gocql.UUID''
               @ ''}'' @ [CHR 0x0A]]))"
    by (simp only: e3)
  show ?thesis
    by (rule conjI [OF w1 conjI [OF c1 conjI [OF w2 conjI [OF c2 conjI [OF w3 c3]]]]])
qed

text \<open>
  C8. The claim: a collection type of bounded nesting depth, rendered as a type string
  and parsed again, gives the descriptor it was built from. The descriptor of a map from
  text to a map from int to int has depth two; the mapper does not give its Go type
  \<open>map[string]map[int]int\<close> for its type string, but the unknown-type error for the
  text before the last comma.
\<close>

theorem nested_descriptor_not_reparsed:
  "depth (Map (Scalar Text) (Map (Scalar Int32) (Scalar Int32))) = 2
   \<and> typeString (Map (Scalar Text) (Map (Scalar Int32) (Scalar Int32)))
       = ''map<text,map<int,int>>''
   \<and> render (Map (Scalar Text) (Map (Scalar Int32) (Scalar Int32))) = ''map[string]map[int]int''
   \<and> cqlToGoType mapLower (typeString (Map (Scalar Text) (Map (Scalar Int32) (Scalar Int32))))
       = Some (Inl (UnknownCQLType ''text,map<int''))"
  by code_simp

end
